theory Spec2Isabelle
  imports Complex_Main "HOL-Library.Signed_Division" "HOL-Library.Sublist"
begin

section \<open>Double-precision arithmetic\<close>

text \<open>
  The kernels of \<^verbatim>\<open>ParallelQR/main.cpp\<close> compute on \<^verbatim>\<open>double\<close>. A
  \<^verbatim>\<open>double\<close> is modelled as a real number and every rounded operation of the source
  (\<^verbatim>\<open>+ - * /\<close> and \<^verbatim>\<open>sqrt\<close>) as the exact operation followed by a rounding
  function \<open>rnd\<close>, which is a parameter of the model; \<^verbatim>\<open>fabs\<close>, \<^verbatim>\<open>fmax\<close>,
  unary minus and the comparisons are exact. Each source operation is rounded on its own
  (no fused multiply-add). NaN, infinities, overflow and the sign of zero are outside the
  model.
\<close>

type_synonym rounding = "real \<Rightarrow> real"

text \<open>
  The rounding that changes nothing. It agrees with binary64 wherever the value rounded is
  a representable number. The theorems about the kernels are stated for every rounding, or
  for every rounding of a stated class; this one only serves as a concrete rounding at
  example inputs.
\<close>

definition exact :: rounding where
  "exact x = x"

text \<open>
  Underflow of binary64 under round-to-nearest-even: a result of magnitude at most
  \<open>1 / 2 ^ 1075\<close> (half the smallest subnormal) becomes zero. Larger results are left
  exact by this rounding, so it agrees with the hardware wherever the exact result is a
  representable number or underflows to zero.
\<close>

definition underflow :: rounding where
  "underflow x = (if \<bar>x\<bar> \<le> 1 / 2 ^ 1075 then 0 else x)"

text \<open>Rounding leaves the small numbers that occur on the identity matrix as they are.\<close>

definition keeps_small :: "rounding \<Rightarrow> bool" where
  "keeps_small rnd =
     (rnd 0 = 0 \<and> rnd 1 = 1 \<and> rnd (- 1) = - 1 \<and> rnd 2 = 2 \<and> rnd (- 2) = - 2
      \<and> rnd (- (1 / 2)) = - (1 / 2))"

text \<open>
  Rounding never turns a non-negative number into a negative one, as a monotone rounding
  that keeps zero does.
\<close>

definition keeps_sign :: "rounding \<Rightarrow> bool" where
  "keeps_sign rnd = (\<forall>x. 0 \<le> x \<longrightarrow> 0 \<le> rnd x)"

section \<open>Program state of the kernels\<close>

text \<open>
  \<^verbatim>\<open>double *mat\<close> is a raw row-major buffer: cell \<open>(r, c)\<close> lives at offset
  \<open>r * n + c\<close>, and the model addresses it by offset, as the source does.
  \<^verbatim>\<open>global_up_array\<close> and \<^verbatim>\<open>global_b_array\<close> are the two global vectors.
  The field \<open>trace\<close> is ghost state: it records, in program order, which loop bodies
  were entered and which reflector slots were stored or loaded. No computation reads it.
\<close>

datatype event =
    Pivot nat           \<comment> \<open>body of the pivot loop of \<^verbatim>\<open>complete_task1\<close> entered for this row\<close>
  | StoreRefl nat       \<comment> \<open>\<^verbatim>\<open>global_up_array[p]\<close>, \<^verbatim>\<open>global_b_array[p]\<close> written\<close>
  | LoadRefl nat        \<comment> \<open>body of the pivot loop of \<^verbatim>\<open>complete_task2\<close> entered: both slots read\<close>
  | Column nat nat      \<comment> \<open>body of the column loop entered for pivot \<open>p\<close> and index \<open>j\<close>\<close>

record qr_state =
  mat :: "nat \<Rightarrow> real"
  global_up_array :: "real list"
  global_b_array :: "real list"
  trace :: "event list"

definition emit :: "event \<Rightarrow> qr_state \<Rightarrow> qr_state" where
  "emit e s = s\<lparr>trace := trace s @ [e]\<rparr>"

section \<open>The kernels\<close>

text \<open>
  Row, column and pivot indices are \<^verbatim>\<open>int\<close> in the source and index the buffer; they
  are natural numbers here. The test \<open>row_end - lpivot < 0\<close> of line 91 is kept as the
  source writes it, on integers. A \<^verbatim>\<open>continue\<close> is an early return from the body of
  the loop, and a \<^verbatim>\<open>for\<close> loop over a fixed range is a \<open>fold\<close> over that range.
\<close>

text \<open>Lines 61--69 of \<^verbatim>\<open>complete_task1\<close>: the scan of row \<open>lpivot\<close>, giving \<open>(cl, sm1)\<close>.\<close>

definition row_scan :: "rounding \<Rightarrow> (nat \<Rightarrow> real) \<Rightarrow> nat \<Rightarrow> nat \<Rightarrow> real \<times> real" where
  "row_scan rnd a n lpivot =
     fold (\<lambda>k (cl, sm1).
             let sm = \<bar>a (lpivot * n + k)\<bar>
             in (max sm cl, rnd (sm1 + rnd (sm * sm))))
          [lpivot + 1 ..< n]
          (\<bar>a (lpivot * n + lpivot)\<bar>, 0)"

text \<open>Lines 75--86: the new value of \<open>cl\<close>, computed when \<open>cl > 0\<close>.\<close>

definition scaled_norm :: "rounding \<Rightarrow> (nat \<Rightarrow> real) \<Rightarrow> nat \<Rightarrow> nat \<Rightarrow> real \<Rightarrow> real \<Rightarrow> real" where
  "scaled_norm rnd a n lpivot cl sm1 =
     (let clinv = rnd (1 / cl);
          d__1 = rnd (a (lpivot * n + lpivot) * clinv);
          sm = rnd (d__1 * d__1);
          sm = rnd (sm + rnd (rnd (sm1 * clinv) * clinv));
          cl = rnd (cl * rnd (sqrt sm))
      in if a (lpivot * n + lpivot) > 0 then - cl else cl)"

text \<open>
  The body of the column loop, shared by both kernels (lines 110--128 and 148--166): the
  dot product, the early exit, and the update of row \<open>j\<close>, cell by cell.
\<close>

definition dot_tail :: "rounding \<Rightarrow> (nat \<Rightarrow> real) \<Rightarrow> nat \<Rightarrow> nat \<Rightarrow> nat \<Rightarrow> real \<Rightarrow> real" where
  "dot_tail rnd a n lpivot j sm0 =
     fold (\<lambda>i sm. rnd (sm + rnd (a (j * n + i) * a (lpivot * n + i)))) [lpivot + 1 ..< n] sm0"

definition axpy_tail :: "rounding \<Rightarrow> nat \<Rightarrow> nat \<Rightarrow> nat \<Rightarrow> real \<Rightarrow> (nat \<Rightarrow> real) \<Rightarrow> (nat \<Rightarrow> real)" where
  "axpy_tail rnd n lpivot j sm a0 =
     fold (\<lambda>i a. a(j * n + i := rnd (a (j * n + i) + rnd (sm * a (lpivot * n + i)))))
          [lpivot + 1 ..< n] a0"

definition apply_reflector :: "rounding \<Rightarrow> nat \<Rightarrow> nat \<Rightarrow> real \<Rightarrow> real \<Rightarrow> nat \<Rightarrow> qr_state \<Rightarrow> qr_state" where
  "apply_reflector rnd n lpivot up b j s0 =
     (let s = emit (Column lpivot j) s0;
          a = mat s;
          sm = dot_tail rnd a n lpivot j (rnd (a (j * n + lpivot) * up))
      in if sm = 0 then s
         else
           let sm = rnd (sm * b);
               a = a(j * n + lpivot := rnd (a (j * n + lpivot) + rnd (sm * up)))
           in s\<lparr>mat := axpy_tail rnd n lpivot j sm a\<rparr>)"

text \<open>The body of the pivot loop of \<^verbatim>\<open>complete_task1\<close> (lines 61--129).\<close>

definition factor_pivot :: "rounding \<Rightarrow> nat \<Rightarrow> nat \<Rightarrow> nat \<Rightarrow> nat \<Rightarrow> qr_state \<Rightarrow> qr_state" where
  "factor_pivot rnd n row_end col_end lpivot s0 =
     (let s = emit (Pivot lpivot) s0;
          a = mat s;
          (cl, sm1) = row_scan rnd a n lpivot
      in if cl \<le> 0 then s
         else
           let cl = scaled_norm rnd a n lpivot cl sm1;
               up = rnd (a (lpivot * n + lpivot) - cl);
               s = s\<lparr>mat := a(lpivot * n + lpivot := cl)\<rparr>
           in if int row_end - int lpivot < 0 then s
              else
                let b = rnd (up * mat s (lpivot * n + lpivot))
                in if b \<ge> 0 then s
                   else
                     let b = rnd (1 / b);
                         s = emit (StoreRefl lpivot)
                               (s\<lparr>global_up_array := (global_up_array s)[lpivot := up],
                                  global_b_array := (global_b_array s)[lpivot := b]\<rparr>)
                     in fold (apply_reflector rnd n lpivot up b) [lpivot + 1 ..< col_end] s)"

definition complete_task1 ::
  "rounding \<Rightarrow> qr_state \<Rightarrow> nat \<Rightarrow> nat \<Rightarrow> nat \<Rightarrow> nat \<Rightarrow> nat \<Rightarrow> nat \<Rightarrow> qr_state" where
  "complete_task1 rnd s m n row_start row_end col_start col_end =
     (let row_start' = (if row_start = 1 then 0 else row_start)
      in fold (factor_pivot rnd n row_end col_end) [row_start' ..< row_end] s)"

text \<open>The body of the pivot loop of \<^verbatim>\<open>complete_task2\<close> (lines 143--167).\<close>

definition update_pivot :: "rounding \<Rightarrow> nat \<Rightarrow> nat \<Rightarrow> nat \<Rightarrow> nat \<Rightarrow> qr_state \<Rightarrow> qr_state" where
  "update_pivot rnd n col_start' col_end lpivot s0 =
     (let s = emit (LoadRefl lpivot) s0;
          up = global_up_array s ! lpivot;
          b = global_b_array s ! lpivot
      in fold (apply_reflector rnd n lpivot up b) [col_start' ..< col_end] s)"

definition complete_task2 ::
  "rounding \<Rightarrow> qr_state \<Rightarrow> nat \<Rightarrow> nat \<Rightarrow> nat \<Rightarrow> nat \<Rightarrow> nat \<Rightarrow> nat \<Rightarrow> qr_state" where
  "complete_task2 rnd s m n row_start row_end col_start col_end =
     (let row_start' = (if row_start = 1 then 0 else row_start);
          col_start' = (if col_start = 1 then 0 else col_start)
      in fold (update_pivot rnd n col_start' col_end) [row_start' ..< row_end] s)"

section \<open>Tasks\<close>

text \<open>
  \<^verbatim>\<open>struct Task\<close> is declared in \<^verbatim>\<open>include/bn2.h\<close>, which is not part of the
  source tree; \<^verbatim>\<open>main.cpp\<close> reads the fields below. The four block bounds are
  \<^verbatim>\<open>int\<close> in the source and used as array indices; they are natural numbers here.
\<close>

record Task =
  type :: int
  chunk_idx_i :: int
  chunk_idx_j :: int
  row_start :: nat
  row_end :: nat
  col_start :: nat
  col_end :: nat
  priority :: int
  enq_nxt_t1 :: bool

text \<open>
  The kernel dispatch of \<^verbatim>\<open>thdwork\<close> (lines 193--195 and 211--213): type 1 runs
  \<^verbatim>\<open>complete_task1\<close>, type 2 runs \<^verbatim>\<open>complete_task2\<close>, any other type runs nothing.
\<close>

definition run_kernel :: "rounding \<Rightarrow> nat \<Rightarrow> nat \<Rightarrow> Task \<Rightarrow> qr_state \<Rightarrow> qr_state" where
  "run_kernel rnd m n t s =
     (if type t = 1 then
        complete_task1 rnd s m n (row_start t) (row_end t) (col_start t) (col_end t)
      else if type t = 2 then
        complete_task2 rnd s m n (row_start t) (row_end t) (col_start t) (col_end t)
      else s)"

text \<open>The kernels of a list of tasks, run one after the other on the shared state.\<close>

definition run_tasks :: "rounding \<Rightarrow> nat \<Rightarrow> nat \<Rightarrow> Task list \<Rightarrow> qr_state \<Rightarrow> qr_state" where
  "run_tasks rnd m n ts s = fold (run_kernel rnd m n) ts s"

section \<open>The task table\<close>

text \<open>
  Modelled from the spec: \<^verbatim>\<open>TaskTable::getTask\<close> of \<^verbatim>\<open>include/bn2.h\<close>, which is not
  part of the source tree. Section 4.3 of the specification gives the descriptor at
  \<open>(i, j)\<close>: \<open>row_start = i * BETA\<close>, \<open>row_end = min ((i + 1) * BETA) M\<close>,
  \<open>col_start = j * ALPHA\<close>, \<open>col_end = min ((j + 1) * ALPHA) M\<close>, type 1 iff
  \<open>j = i * R\<close> with \<open>R = BETA / ALPHA\<close>, \<open>priority = (TR - i) * 2\<close> plus one for type 1,
  and (rule R3 of section 4.6) \<open>enq_nxt_t1\<close> iff the task has type 2,
  \<open>j + 1 = (i + 1) * R\<close> and \<open>i + 1 < TR\<close>.
\<close>

definition spec_task :: "int \<Rightarrow> int \<Rightarrow> int \<Rightarrow> int \<Rightarrow> int \<Rightarrow> Task" where
  "spec_task ALPHA BETA M i j =
     (let R = BETA div ALPHA;
          TR = \<lceil>real_of_int M / real_of_int BETA\<rceil>;
          ty = (if j = i * R then 1 else 2)
      in \<lparr>type = ty, chunk_idx_i = i, chunk_idx_j = j,
          row_start = nat (i * BETA), row_end = nat (min ((i + 1) * BETA) M),
          col_start = nat (j * ALPHA), col_end = nat (min ((j + 1) * ALPHA) M),
          priority = (TR - i) * 2 + (if ty = 1 then 1 else 0),
          enq_nxt_t1 = (ty = 2 \<and> j + 1 = (i + 1) * R \<and> i + 1 < TR)\<rparr>)"

section \<open>The scheduler\<close>

text \<open>
  Modelled from the spec: \<^verbatim>\<open>DependencyTableAtomic\<close> of \<^verbatim>\<open>include/bn2.h\<close>, which is not
  part of the source tree. Section 4.4 of the specification: a grid of boolean flags
  indexed by \<open>(i, j)\<close>, all false at first; \<^verbatim>\<open>setDependency\<close> stores a value in one cell
  and \<^verbatim>\<open>getDependency\<close> loads one cell. The bounds of the grid are not modelled.
\<close>

type_synonym dependency = "int \<times> int \<Rightarrow> bool"

definition getDependency :: "dependency \<Rightarrow> int \<Rightarrow> int \<Rightarrow> bool" where
  "getDependency d i j = d (i, j)"

definition setDependency :: "dependency \<Rightarrow> int \<Rightarrow> int \<Rightarrow> bool \<Rightarrow> dependency" where
  "setDependency d i j v = d((i, j) := v)"

text \<open>
  \<^verbatim>\<open>thread_args_ts\<close>, without \<^verbatim>\<open>tid\<close> (never read) and \<^verbatim>\<open>mat\<close> (the matrix is
  part of the shared state). The fields \<^verbatim>\<open>m\<close> and \<^verbatim>\<open>n\<close> are called \<open>arg_m\<close> and
  \<open>arg_n\<close>.
\<close>

record thread_args =
  total_task_rows :: int
  total_task_cols :: int
  arg_m :: nat
  arg_n :: nat

text \<open>
  Where a worker stands in the loop of \<^verbatim>\<open>thdwork\<close>: before the pop from the ready queue
  (line 183), holding a popped task whose kernel has not completed, before the pop from the
  wait queue (line 223), before the termination check (line 237), or after \<^verbatim>\<open>break\<close>.
\<close>

datatype pc = AtReady | Running Task | AtWait | AtCheck | Exited

text \<open>
  The shared state: matrix and reflector arrays, the dependency table, the ready queue
  \<^verbatim>\<open>taskPQ\<close> and the wait queue (both FIFO: \<^verbatim>\<open>USE_PRIORITY_MAIN_QUEUE\<close> is 0), and the
  control point of every worker. A queue is a list: \<^verbatim>\<open>push\<close> appends, \<^verbatim>\<open>try_pop\<close>
  takes the head.
\<close>

record sched_state =
  kernel :: qr_state
  dependency_table :: dependency
  taskPQ :: "Task list"
  wait_queue :: "Task list"
  pcs :: "nat \<Rightarrow> pc"

datatype error =
    Undefined     \<comment> \<open>undefined behaviour: integer division by zero, conversion of a non-finite double\<close>
  | LengthError   \<comment> \<open>\<^verbatim>\<open>std::length_error\<close> of \<^verbatim>\<open>vector::resize\<close>\<close>

text \<open>Lines 182--183: the pop from the ready queue.\<close>

definition pop_ready :: "nat \<Rightarrow> sched_state \<Rightarrow> sched_state" where
  "pop_ready w s =
     (case taskPQ s of
        [] \<Rightarrow> s\<lparr>pcs := (pcs s)(w := AtWait)\<rparr>
      | new_task # rest \<Rightarrow> s\<lparr>taskPQ := rest, pcs := (pcs s)(w := Running new_task)\<rparr>)"

text \<open>Lines 197--209: the successors of a completed type-1 task at \<open>(i, j)\<close>.\<close>

definition enqueue_successors ::
  "(int \<Rightarrow> int \<Rightarrow> Task) \<Rightarrow> thread_args \<Rightarrow> int \<Rightarrow> int \<Rightarrow> sched_state \<Rightarrow> sched_state" where
  "enqueue_successors getTask args i j s0 =
     fold (\<lambda>k s.
             let next_task = getTask k j
             in if j = 0 \<or> getDependency (dependency_table s) k (j - 1)
                then s\<lparr>taskPQ := taskPQ s @ [next_task]\<rparr>
                else s\<lparr>wait_queue := wait_queue s @ [next_task]\<rparr>)
          [i + 1 .. total_task_rows args - 1] s0"

text \<open>
  Lines 185--219: the kernel of the popped task, its dependency flag, and the enqueue
  rules. The kernel takes effect in one step. \<open>R\<close> is the macro \<^verbatim>\<open>BETA_DIV_ALPHA\<close>;
  integer division in C truncates (\<open>sdiv\<close>) and is undefined for a zero divisor.
\<close>

definition complete_task ::
  "rounding \<Rightarrow> int \<Rightarrow> (int \<Rightarrow> int \<Rightarrow> Task) \<Rightarrow> thread_args \<Rightarrow> nat \<Rightarrow> Task \<Rightarrow> sched_state
     \<Rightarrow> error + sched_state" where
  "complete_task rnd R getTask args w new_task s0 =
     (let i = chunk_idx_i new_task;
          j = chunk_idx_j new_task;
          s = s0\<lparr>pcs := (pcs s0)(w := AtWait)\<rparr>
      in if type new_task = 1 then
           Inr (enqueue_successors getTask args i j
                  (s\<lparr>kernel := complete_task1 rnd (kernel s) (arg_m args) (arg_n args)
                                  (row_start new_task) (row_end new_task)
                                  (col_start new_task) (col_end new_task),
                     dependency_table := setDependency (dependency_table s) i j True\<rparr>))
         else if type new_task = 2 then
           (let s = s\<lparr>kernel := complete_task2 rnd (kernel s) (arg_m args) (arg_n args)
                                    (row_start new_task) (row_end new_task)
                                    (col_start new_task) (col_end new_task),
                       dependency_table := setDependency (dependency_table s) i j True\<rparr>
            in if enq_nxt_t1 new_task \<and> j + 1 \<le> total_task_cols args then
                 (if R = 0 then Inl Undefined
                  else Inr (s\<lparr>taskPQ := taskPQ s @ [getTask ((j + 1) sdiv R) (j + 1)]\<rparr>))
               else Inr s)
         else Inr s)"

text \<open>Lines 222--235: one task of the wait queue is examined again.\<close>

definition recheck_cell :: "Task \<Rightarrow> int \<times> int" where
  "recheck_cell local_task = (chunk_idx_i local_task, chunk_idx_j local_task - 1)"

definition recheck_wait :: "nat \<Rightarrow> sched_state \<Rightarrow> sched_state" where
  "recheck_wait w s0 =
     (let s = s0\<lparr>pcs := (pcs s0)(w := AtCheck)\<rparr>
      in case wait_queue s of
           [] \<Rightarrow> s
         | local_task # rest \<Rightarrow>
             if getDependency (dependency_table s) (fst (recheck_cell local_task))
                  (snd (recheck_cell local_task))
             then s\<lparr>wait_queue := rest, taskPQ := taskPQ s @ [local_task]\<rparr>
             else s\<lparr>wait_queue := rest @ [local_task]\<rparr>)"

text \<open>Lines 237--240: the termination check.\<close>

definition termination_flag :: "int \<Rightarrow> thread_args \<Rightarrow> dependency \<Rightarrow> bool" where
  "termination_flag R args d =
     getDependency d (total_task_rows args - 1) (R * (total_task_rows args - 1))"

definition check_termination :: "int \<Rightarrow> thread_args \<Rightarrow> nat \<Rightarrow> sched_state \<Rightarrow> sched_state" where
  "check_termination R args w s =
     (if termination_flag R args (dependency_table s)
      then s\<lparr>pcs := (pcs s)(w := Exited)\<rparr>
      else s\<lparr>pcs := (pcs s)(w := AtReady)\<rparr>)"

text \<open>One step of worker \<open>w\<close>. A worker that has left the loop takes no step.\<close>

definition worker_step ::
  "rounding \<Rightarrow> int \<Rightarrow> (int \<Rightarrow> int \<Rightarrow> Task) \<Rightarrow> thread_args \<Rightarrow> nat \<Rightarrow> sched_state
     \<Rightarrow> error + sched_state" where
  "worker_step rnd R getTask args w s =
     (case pcs s w of
        AtReady \<Rightarrow> Inr (pop_ready w s)
      | Running new_task \<Rightarrow> complete_task rnd R getTask args w new_task s
      | AtWait \<Rightarrow> Inr (recheck_wait w s)
      | AtCheck \<Rightarrow> Inr (check_termination R args w s)
      | Exited \<Rightarrow> Inr s)"

text \<open>The number of workers \<^verbatim>\<open>dagqrf\<close> creates.\<close>

definition NUM_THREADS :: nat where
  "NUM_THREADS = 26"

text \<open>
  The states the workers can reach from \<open>s0\<close>: any of the \<^verbatim>\<open>NUM_THREADS\<close> workers may
  take the next step, so every interleaving of the workers' steps is covered.
\<close>

inductive reachable ::
  "rounding \<Rightarrow> int \<Rightarrow> (int \<Rightarrow> int \<Rightarrow> Task) \<Rightarrow> thread_args \<Rightarrow> sched_state \<Rightarrow> sched_state \<Rightarrow> bool"
  for rnd R getTask args s0 where
    start: "reachable rnd R getTask args s0 s0"
  | step: "reachable rnd R getTask args s0 s \<Longrightarrow> w < NUM_THREADS
           \<Longrightarrow> worker_step rnd R getTask args w s = Inr s'
           \<Longrightarrow> reachable rnd R getTask args s0 s'"

text \<open>The steps of a given list of workers, one after the other, stopping at an error.\<close>

fun run_schedule ::
  "rounding \<Rightarrow> int \<Rightarrow> (int \<Rightarrow> int \<Rightarrow> Task) \<Rightarrow> thread_args \<Rightarrow> nat list \<Rightarrow> sched_state
     \<Rightarrow> error + sched_state" where
  "run_schedule rnd R getTask args [] s = Inr s"
| "run_schedule rnd R getTask args (w # ws) s =
     (case worker_step rnd R getTask args w s of
        Inl e \<Rightarrow> Inl e
      | Inr s' \<Rightarrow> run_schedule rnd R getTask args ws s')"

section \<open>The driver\<close>

text \<open>
  \<^verbatim>\<open>dagqrf\<close> up to the creation of the threads (lines 275--296), for the first call in
  a process (the global vectors and queues are empty). \<open>ALPHA\<close> and \<open>BETA\<close> are macros
  of the source and parameters here, and so is the task table. The quotient of
  \<^verbatim>\<open>(double)mat_rows / BETA\<close> is not finite when \<open>BETA\<close> is zero, and its conversion
  to \<^verbatim>\<open>int\<close> undefined; \<^verbatim>\<open>resize\<close> throws for a negative \<^verbatim>\<open>mat_rows\<close>. The function
  has no other failing path. A negative \<^verbatim>\<open>mat_cols\<close> is outside the model, whose column
  count is a natural number.
\<close>

definition BETA_DIV_ALPHA :: "int \<Rightarrow> int \<Rightarrow> int" where
  "BETA_DIV_ALPHA ALPHA BETA = BETA sdiv ALPHA"

definition dagqrf_start ::
  "int \<Rightarrow> int \<Rightarrow> (int \<Rightarrow> int \<Rightarrow> Task) \<Rightarrow> (nat \<Rightarrow> real) \<Rightarrow> int \<Rightarrow> int
     \<Rightarrow> error + thread_args \<times> sched_state" where
  "dagqrf_start ALPHA BETA getTask a mat_rows mat_cols =
     (if ALPHA = 0 \<or> BETA = 0 then Inl Undefined
      else if mat_rows < 0 then Inl LengthError
      else
        Inr (\<lparr>total_task_rows = \<lceil>real_of_int mat_rows / real_of_int BETA\<rceil>,
              total_task_cols = \<lceil>real_of_int mat_rows / real_of_int ALPHA\<rceil>,
              arg_m = nat mat_rows, arg_n = nat mat_cols\<rparr>,
             \<lparr>kernel = \<lparr>mat = a, global_up_array = replicate (nat mat_rows) 0,
                         global_b_array = replicate (nat mat_rows) 0, trace = []\<rparr>,
              dependency_table = (\<lambda>c. False),
              taskPQ = [getTask 0 0],
              wait_queue = [],
              pcs = (\<lambda>w. AtReady)\<rparr>))"

section \<open>Named parts of a pivot step\<close>

text \<open>
  The values of the local variables of one pass through the pivot loop of
  \<^verbatim>\<open>complete_task1\<close>, as functions of the matrix at the start of the pass: \<open>cl\<close>
  after the row scan (line 69), \<open>cl\<close> after line 86, \<open>up\<close> (line 88) and \<open>b\<close> (line 96).
\<close>

definition pivot_cl :: "rounding \<Rightarrow> (nat \<Rightarrow> real) \<Rightarrow> nat \<Rightarrow> nat \<Rightarrow> real" where
  "pivot_cl rnd a n lpivot = fst (row_scan rnd a n lpivot)"

definition pivot_new_cl :: "rounding \<Rightarrow> (nat \<Rightarrow> real) \<Rightarrow> nat \<Rightarrow> nat \<Rightarrow> real" where
  "pivot_new_cl rnd a n lpivot =
     scaled_norm rnd a n lpivot (fst (row_scan rnd a n lpivot)) (snd (row_scan rnd a n lpivot))"

definition pivot_up :: "rounding \<Rightarrow> (nat \<Rightarrow> real) \<Rightarrow> nat \<Rightarrow> nat \<Rightarrow> real" where
  "pivot_up rnd a n lpivot = rnd (a (lpivot * n + lpivot) - pivot_new_cl rnd a n lpivot)"

definition pivot_b :: "rounding \<Rightarrow> (nat \<Rightarrow> real) \<Rightarrow> nat \<Rightarrow> nat \<Rightarrow> real" where
  "pivot_b rnd a n lpivot = rnd (pivot_up rnd a n lpivot * pivot_new_cl rnd a n lpivot)"

text \<open>The pass reaches the reflector store of lines 105--106.\<close>

definition stores :: "rounding \<Rightarrow> (nat \<Rightarrow> real) \<Rightarrow> nat \<Rightarrow> nat \<Rightarrow> nat \<Rightarrow> bool" where
  "stores rnd a n re p = (0 < pivot_cl rnd a n p \<and> p \<le> re \<and> pivot_b rnd a n p < 0)"

section \<open>Reading the trace\<close>

fun pivots_visited :: "event list \<Rightarrow> nat list" where
  "pivots_visited [] = []"
| "pivots_visited (Pivot p # es) = p # pivots_visited es"
| "pivots_visited (e # es) = pivots_visited es"

fun refl_stores :: "event list \<Rightarrow> nat list" where
  "refl_stores [] = []"
| "refl_stores (StoreRefl p # es) = p # refl_stores es"
| "refl_stores (e # es) = refl_stores es"

fun refl_loads :: "event list \<Rightarrow> nat list" where
  "refl_loads [] = []"
| "refl_loads (LoadRefl p # es) = p # refl_loads es"
| "refl_loads (e # es) = refl_loads es"

fun columns_visited :: "event list \<Rightarrow> (nat \<times> nat) list" where
  "columns_visited [] = []"
| "columns_visited (Column p j # es) = (p, j) # columns_visited es"
| "columns_visited (e # es) = columns_visited es"

section \<open>The pivot step as the specification words it\<close>

text \<open>
  Section 4.5.1 of the specification, steps 1, 3 and 4, each operation being the
  operation on doubles: \<open>cl\<close> is the largest absolute value of the entries \<open>M[p,p]\<close>
  and \<open>M[p,k]\<close> for \<open>p < k < N\<close> (no rounding is involved), \<open>sm1\<close> the sum of the
  squares of the latter, added up in the order of \<open>k\<close>; then \<open>clinv = 1/cl\<close>,
  \<open>d = M[p,p] * clinv\<close>, \<open>sm = d\<^sup>2 + sm1 * clinv\<^sup>2\<close>, the new \<open>cl\<close> is
  \<open>cl * sqrt sm\<close>, negated when \<open>M[p,p] > 0\<close>, \<open>up = M[p,p] - cl\<close> and
  \<open>b = up * cl\<close>. The product \<open>sm1 * clinv\<^sup>2\<close> is read as \<open>(sm1 * clinv) * clinv\<close>.
\<close>

definition spec_cl :: "(nat \<Rightarrow> real) \<Rightarrow> nat \<Rightarrow> nat \<Rightarrow> real" where
  "spec_cl a n p = Max (insert \<bar>a (p * n + p)\<bar> ((\<lambda>k. \<bar>a (p * n + k)\<bar>) ` {p + 1 ..< n}))"

definition spec_sm1 :: "rounding \<Rightarrow> (nat \<Rightarrow> real) \<Rightarrow> nat \<Rightarrow> nat \<Rightarrow> real" where
  "spec_sm1 rnd a n p = fold (\<lambda>k s. rnd (s + rnd ((a (p * n + k))\<^sup>2))) [p + 1 ..< n] 0"

definition spec_new_cl :: "rounding \<Rightarrow> (nat \<Rightarrow> real) \<Rightarrow> nat \<Rightarrow> nat \<Rightarrow> real" where
  "spec_new_cl rnd a n p =
     (let cl = spec_cl a n p;
          sm1 = spec_sm1 rnd a n p;
          clinv = rnd (1 / cl);
          d = rnd (a (p * n + p) * clinv);
          sm = rnd (rnd (d * d) + rnd (rnd (sm1 * clinv) * clinv));
          cl = rnd (cl * rnd (sqrt sm))
      in if a (p * n + p) > 0 then - cl else cl)"

definition spec_up :: "rounding \<Rightarrow> (nat \<Rightarrow> real) \<Rightarrow> nat \<Rightarrow> nat \<Rightarrow> real" where
  "spec_up rnd a n p = rnd (a (p * n + p) - spec_new_cl rnd a n p)"

definition spec_b :: "rounding \<Rightarrow> (nat \<Rightarrow> real) \<Rightarrow> nat \<Rightarrow> nat \<Rightarrow> real" where
  "spec_b rnd a n p = rnd (spec_up rnd a n p * spec_new_cl rnd a n p)"

section \<open>Invariant of the kernels on a signed identity matrix\<close>

text \<open>
  The diagonal holds 1 or -1 and every other cell of the \<open>n\<close> x \<open>n\<close> block is zero;
  a reflector slot is \<open>(0, 0)\<close> until \<^verbatim>\<open>complete_task1\<close> has visited its row and
  \<open>(2 or -2, -1/2)\<close> afterwards.
\<close>

definition unit_diagonal :: "nat \<Rightarrow> (nat \<Rightarrow> real) \<Rightarrow> bool" where
  "unit_diagonal n a =
     ((\<forall>r<n. \<bar>a (r * n + r)\<bar> = 1) \<and> (\<forall>r<n. \<forall>c<n. r \<noteq> c \<longrightarrow> a (r * n + c) = 0))"

definition slots_follow_trace :: "nat \<Rightarrow> qr_state \<Rightarrow> bool" where
  "slots_follow_trace n s =
     (length (global_up_array s) = n \<and> length (global_b_array s) = n \<and>
      (\<forall>r<n. if r \<in> set (pivots_visited (trace s))
              then \<bar>global_up_array s ! r\<bar> = 2 \<and> global_b_array s ! r = - (1 / 2)
              else global_up_array s ! r = 0 \<and> global_b_array s ! r = 0))"

definition identity_invariant :: "nat \<Rightarrow> qr_state \<Rightarrow> bool" where
  "identity_invariant n s = (unit_diagonal n (mat s) \<and> slots_follow_trace n s)"

section \<open>Invariant of the queues\<close>

text \<open>
  Every task in the wait queue has column index at least 1; every task in the ready queue
  or held by a worker has a column index that is not negative.
\<close>

definition columns_in_order :: "sched_state \<Rightarrow> bool" where
  "columns_in_order s =
     ((\<forall>t\<in>set (wait_queue s). 1 \<le> chunk_idx_j t) \<and>
      (\<forall>t\<in>set (taskPQ s). 0 \<le> chunk_idx_j t) \<and>
      (\<forall>w t. pcs s w = Running t \<longrightarrow> 0 \<le> chunk_idx_j t))"

section \<open>Example inputs\<close>

text \<open>A 1 x 1 matrix holding zero, with one zeroed reflector slot.\<close>

definition zero_state :: qr_state where
  "zero_state = \<lparr>mat = (\<lambda>i. 0), global_up_array = [0], global_b_array = [0], trace = []\<rparr>"

text \<open>
  A 1 x 1 matrix holding \<open>- (1 / 2 ^ 600)\<close>: the product \<open>up * cl\<close> of line 96 is
  \<open>- (1 / 2 ^ 1199)\<close>, which underflows to zero in binary64.
\<close>

definition tiny :: "nat \<Rightarrow> real" where
  "tiny i = (if i = 0 then - (1 / 2 ^ 600) else 0)"

definition tiny_state :: qr_state where
  "tiny_state = \<lparr>mat = tiny, global_up_array = [0], global_b_array = [0], trace = []\<rparr>"

text \<open>
  The 2 x 2 matrix with rows \<open>(0, 1 / 2 ^ 600)\<close> and \<open>(0, 0)\<close>: the square of the
  entry \<open>1 / 2 ^ 600\<close> underflows to zero in binary64, so \<open>sm1\<close>, \<open>sm\<close> and the new
  \<open>cl\<close> of row 0 are all zero.
\<close>

definition tiny2 :: "nat \<Rightarrow> real" where
  "tiny2 i = (if i = 1 then 1 / 2 ^ 600 else 0)"

definition tiny2_state :: qr_state where
  "tiny2_state = \<lparr>mat = tiny2, global_up_array = [0], global_b_array = [0], trace = []\<rparr>"

text \<open>
  The 5 x 5 matrix whose first row is \<open>(0, 1, 1, 1, 1)\<close> and whose other rows are zero.
  Every value the pivot step computes on it is a small integer or \<open>-1/4\<close>.
\<close>

definition ones5 :: "nat \<Rightarrow> real" where
  "ones5 i = (if 1 \<le> i \<and> i < 5 then 1 else 0)"

definition ones5_state :: qr_state where
  "ones5_state = \<lparr>mat = ones5, global_up_array = [0, 0, 0, 0, 0],
                    global_b_array = [0, 0, 0, 0, 0], trace = []\<rparr>"

text \<open>The 2 x 2 matrix with rows \<open>(1, 2)\<close> and \<open>(3, 4)\<close> and zeroed reflector slots.\<close>

definition dense2 :: "nat \<Rightarrow> real" where
  "dense2 i = (if i < 4 then real (i + 1) else 0)"

definition dense2_state :: qr_state where
  "dense2_state = \<lparr>mat = dense2, global_up_array = [0, 0], global_b_array = [0, 0], trace = []\<rparr>"



text \<open>The \<open>n\<close> x \<open>n\<close> identity matrix with zeroed reflector arrays of length \<open>n\<close>.\<close>

definition identity_matrix :: "nat \<Rightarrow> nat \<Rightarrow> real" where
  "identity_matrix n c = (if c < n * n \<and> c div n = c mod n then 1 else 0)"

definition identity_state :: "nat \<Rightarrow> qr_state" where
  "identity_state n =
     \<lparr>mat = identity_matrix n, global_up_array = replicate n 0,
      global_b_array = replicate n 0, trace = []\<rparr>"

text \<open>
  The task table is a parameter of the scheduler. Besides the table of section 4.3, the
  examples use this one, for \<open>ALPHA = BETA = 1\<close>: the task at \<open>(i, j)\<close> has the pivot
  row \<open>j\<close> and the matrix row \<open>i\<close>, type 1 on the diagonal, and \<^verbatim>\<open>enq_nxt_t1\<close>
  directly left of the diagonal. It is an example input, not part of the source.
\<close>

definition unit_block_task :: "int \<Rightarrow> int \<Rightarrow> Task" where
  "unit_block_task i j =
     \<lparr>type = (if i = j then 1 else 2), chunk_idx_i = i, chunk_idx_j = j,
      row_start = nat j, row_end = nat (j + 1), col_start = nat i, col_end = nat (i + 1),
      priority = 0, enq_nxt_t1 = (i = j + 1)\<rparr>"

section \<open>Basic facts about the kernels\<close>

lemma pivots_visited_append [simp]: "pivots_visited (xs @ ys) = pivots_visited xs @ pivots_visited ys"
  by (induction xs rule: pivots_visited.induct) simp_all

lemma refl_stores_append [simp]: "refl_stores (xs @ ys) = refl_stores xs @ refl_stores ys"
  by (induction xs rule: refl_stores.induct) simp_all

lemma refl_loads_append [simp]: "refl_loads (xs @ ys) = refl_loads xs @ refl_loads ys"
  by (induction xs rule: refl_loads.induct) simp_all

lemma columns_visited_append [simp]: "columns_visited (xs @ ys) = columns_visited xs @ columns_visited ys"
  by (induction xs rule: columns_visited.induct) simp_all

lemma map_Column_simps [simp]:
  "pivots_visited (map (Column p) js) = []"
  "refl_stores (map (Column p) js) = []"
  "refl_loads (map (Column p) js) = []"
  "columns_visited (map (Column p) js) = map (Pair p) js"
  by (induction js) simp_all

lemma emit_simps [simp]:
  "mat (emit e s) = mat s"
  "global_up_array (emit e s) = global_up_array s"
  "global_b_array (emit e s) = global_b_array s"
  "trace (emit e s) = trace s @ [e]"
  by (simp_all add: emit_def)

lemma apply_reflector_simps [simp]:
  "trace (apply_reflector rnd n p up b j s) = trace s @ [Column p j]"
  "global_up_array (apply_reflector rnd n p up b j s) = global_up_array s"
  "global_b_array (apply_reflector rnd n p up b j s) = global_b_array s"
  by (simp_all add: apply_reflector_def Let_def)

lemma fold_apply_reflector_simps [simp]:
  "trace (fold (apply_reflector rnd n p up b) js s) = trace s @ map (Column p) js"
  "global_up_array (fold (apply_reflector rnd n p up b) js s) = global_up_array s"
  "global_b_array (fold (apply_reflector rnd n p up b) js s) = global_b_array s"
  by (induction js arbitrary: s) simp_all

lemma factor_pivot_skip:
  "pivot_cl rnd (mat s) n p \<le> 0 \<Longrightarrow> factor_pivot rnd n re ce p s = emit (Pivot p) s"
  by (simp add: factor_pivot_def pivot_cl_def Let_def split_beta)

lemma factor_pivot_degenerate:
  "0 < pivot_cl rnd (mat s) n p \<Longrightarrow> re < p \<or> 0 \<le> pivot_b rnd (mat s) n p \<Longrightarrow>
   factor_pivot rnd n re ce p s =
     (emit (Pivot p) s)\<lparr>mat := (mat s)(p * n + p := pivot_new_cl rnd (mat s) n p)\<rparr>"
  by (auto simp add: factor_pivot_def pivot_cl_def pivot_b_def pivot_up_def pivot_new_cl_def Let_def split_beta)

lemma factor_pivot_store:
  "0 < pivot_cl rnd (mat s) n p \<Longrightarrow> p \<le> re \<Longrightarrow> pivot_b rnd (mat s) n p < 0 \<Longrightarrow>
   factor_pivot rnd n re ce p s =
     fold (apply_reflector rnd n p (pivot_up rnd (mat s) n p) (rnd (1 / pivot_b rnd (mat s) n p)))
       [p + 1 ..< ce]
       (emit (StoreRefl p)
         ((emit (Pivot p) s)
            \<lparr>mat := (mat s)(p * n + p := pivot_new_cl rnd (mat s) n p),
             global_up_array := (global_up_array s)[p := pivot_up rnd (mat s) n p],
             global_b_array := (global_b_array s)[p := rnd (1 / pivot_b rnd (mat s) n p)]\<rparr>))"
  by (auto simp add: factor_pivot_def pivot_cl_def pivot_b_def pivot_up_def pivot_new_cl_def Let_def split_beta)

lemma factor_pivot_trace:
  "trace (factor_pivot rnd n re ce p s) =
     trace s @ Pivot p # (if stores rnd (mat s) n re p then StoreRefl p # map (Column p) [p + 1 ..< ce] else [])"
proof (cases "stores rnd (mat s) n re p")
  case True
  then show ?thesis by (simp add: stores_def factor_pivot_store)
next
  case False
  then consider "pivot_cl rnd (mat s) n p \<le> 0"
    | "0 < pivot_cl rnd (mat s) n p" "re < p \<or> 0 \<le> pivot_b rnd (mat s) n p"
    unfolding stores_def by linarith
  then show ?thesis
    using False by cases (simp_all add: factor_pivot_skip factor_pivot_degenerate)
qed

lemma factor_pivot_pivots:
  "pivots_visited (trace (factor_pivot rnd n re ce p s)) = pivots_visited (trace s) @ [p]"
  by (simp add: factor_pivot_trace)

lemma fold_factor_pivots:
  "pivots_visited (trace (fold (factor_pivot rnd n re ce) ps s)) = pivots_visited (trace s) @ ps"
  by (induction ps arbitrary: s) (simp_all add: factor_pivot_pivots)


lemma update_pivot_trace:
  "trace (update_pivot rnd n cs ce p s) = trace s @ LoadRefl p # map (Column p) [cs ..< ce]"
  by (simp add: update_pivot_def Let_def)

lemma fold_update_pivot_loads:
  "refl_loads (trace (fold (update_pivot rnd n cs ce) ps s)) = refl_loads (trace s) @ ps"
  by (induction ps arbitrary: s) (simp_all add: update_pivot_trace)

lemma fold_update_pivot_columns:
  "columns_visited (trace (fold (update_pivot rnd n cs ce) ps s)) =
     columns_visited (trace s) @ concat (map (\<lambda>p. map (Pair p) [cs ..< ce]) ps)"
  by (induction ps arbitrary: s) (simp_all add: update_pivot_trace)

section \<open>The sentinel for the first row and column block\<close>

text \<open>
  Claim C8. Both kernels treat a start index of 1 as 0 and take any other start index
  as it is: \<^verbatim>\<open>complete_task1\<close> enters its pivot loop for the rows
  \<open>row_start' ..< row_end\<close>, in this order, where \<open>row_start'\<close> is 0 when
  \<open>row_start = 1\<close> and \<open>row_start\<close> otherwise; \<^verbatim>\<open>complete_task2\<close> enters its pivot
  loop for the same rows and, for each of them, its column loop for
  \<open>col_start' ..< col_end\<close>, with \<open>col_start'\<close> obtained from \<open>col_start\<close> in the
  same way.
\<close>

theorem sentinel_one_means_zero:
  "pivots_visited (trace (complete_task1 rnd s m n rs re cs ce)) =
     pivots_visited (trace s) @ [(if rs = 1 then 0 else rs) ..< re]
   \<and> refl_loads (trace (complete_task2 rnd s m n rs re cs ce)) =
     refl_loads (trace s) @ [(if rs = 1 then 0 else rs) ..< re]
   \<and> columns_visited (trace (complete_task2 rnd s m n rs re cs ce)) =
     columns_visited (trace s) @
     concat (map (\<lambda>p. map (Pair p) [(if cs = 1 then 0 else cs) ..< ce])
                 [(if rs = 1 then 0 else rs) ..< re])"
  by (simp add: complete_task1_def complete_task2_def Let_def fold_factor_pivots
      fold_update_pivot_loads fold_update_pivot_columns)

section \<open>Degenerate pivots\<close>

lemma fold_fixed_on:
  assumes "\<And>i. i \<in> set ks \<Longrightarrow> f i a = a"
  shows "fold f ks a = a"
  using assms by (induction ks) simp_all

lemma axpy_tail_zero:
  assumes "rnd 0 = 0" and "\<forall>c. rnd (a c) = a c"
  shows "axpy_tail rnd n p j 0 a = a"
  unfolding axpy_tail_def
  by (rule fold_fixed_on) (simp add: assms)

lemma apply_zero_reflector:
  assumes "rnd 0 = 0" and "\<forall>c. rnd (mat s c) = mat s c"
  shows "mat (apply_reflector rnd n p 0 0 j s) = mat s"
proof -
  have "(mat s)(j * n + p := rnd (mat s (j * n + p) + rnd (0 * 0))) = mat s"
    by (simp add: assms)
  then show ?thesis
    using assms by (simp add: apply_reflector_def axpy_tail_zero Let_def)
qed

lemma fold_apply_zero_reflector:
  assumes "rnd 0 = 0" and "\<forall>c. rnd (mat s c) = mat s c"
  shows "mat (fold (apply_reflector rnd n p 0 0) js s) = mat s"
  using assms by (induction js arbitrary: s) (simp_all add: apply_zero_reflector)

lemma update_pivot_zero_reflector:
  assumes "rnd 0 = 0" and "\<forall>c. rnd (mat s c) = mat s c"
    and "global_up_array s ! p = 0" and "global_b_array s ! p = 0"
  shows "mat (update_pivot rnd n cs ce p s) = mat s"
  using assms by (simp add: update_pivot_def Let_def fold_apply_zero_reflector)

lemma apply_reflector_early_exit:
  "dot_tail rnd (mat s) n p j (rnd (mat s (j * n + p) * up)) = 0 \<Longrightarrow>
   apply_reflector rnd n p up b j s = emit (Column p j) s"
  by (simp add: apply_reflector_def Let_def)

lemma tiny_cl: "pivot_cl underflow tiny (Suc 0) 0 = 1 / 2 ^ 600"
  by (simp add: pivot_cl_def row_scan_def tiny_def)

lemma tiny_new_cl: "pivot_new_cl underflow tiny (Suc 0) 0 = 1 / 2 ^ 600"
  by (simp add: pivot_new_cl_def scaled_norm_def row_scan_def tiny_def underflow_def Let_def)

lemma tiny_b: "pivot_b underflow tiny (Suc 0) 0 = 0"
  by (simp add: pivot_b_def pivot_up_def pivot_new_cl_def scaled_norm_def row_scan_def
      underflow_def tiny_def Let_def)

lemma tiny_representable: "\<forall>c. underflow (tiny c) = tiny c"
  by (simp add: underflow_def tiny_def)

lemma fold_invariant:
  assumes "P a" and "\<And>k x. P x \<Longrightarrow> P (f k x)"
  shows "P (fold f ks a)"
  using assms by (induction ks arbitrary: a) simp_all

lemma row_scan_sum_nonneg:
  assumes "\<forall>x. 0 \<le> x \<longrightarrow> 0 \<le> rnd x"
  shows "0 \<le> snd (row_scan rnd a n p)"
  unfolding row_scan_def
proof (rule fold_invariant [where P = "\<lambda>x. 0 \<le> snd x"])
  show "0 \<le> snd (\<bar>a (p * n + p)\<bar>, 0::real)" by simp
next
  fix k and x :: "real \<times> real"
  assume x: "0 \<le> snd x"
  have "0 \<le> rnd (\<bar>a (p * n + k)\<bar> * \<bar>a (p * n + k)\<bar>)"
    using assms by simp
  then have "0 \<le> rnd (snd x + rnd (\<bar>a (p * n + k)\<bar> * \<bar>a (p * n + k)\<bar>))"
    using assms x by simp
  then show "0 \<le> snd (case x of (cl, sm1) \<Rightarrow>
      let sm = \<bar>a (p * n + k)\<bar> in (max sm cl, rnd (sm1 + rnd (sm * sm))))"
    by (simp add: split_beta Let_def)
qed

lemma scaled_norm_sign:
  assumes r: "\<forall>x. 0 \<le> x \<longrightarrow> 0 \<le> rnd x" and cl: "0 < cl" and sm1: "0 \<le> sm1"
  shows "(0 < a (p * n + p) \<longrightarrow> scaled_norm rnd a n p cl sm1 \<le> 0)
       \<and> (a (p * n + p) \<le> 0 \<longrightarrow> 0 \<le> scaled_norm rnd a n p cl sm1)"
proof -
  define clinv where "clinv = rnd (1 / cl)"
  define d where "d = rnd (a (p * n + p) * clinv)"
  define sm where "sm = rnd (rnd (d * d) + rnd (rnd (sm1 * clinv) * clinv))"
  have c: "0 \<le> clinv"
    unfolding clinv_def using r cl by simp
  have "0 \<le> rnd (sm1 * clinv)"
    using r c sm1 by simp
  then have "0 \<le> rnd (rnd (sm1 * clinv) * clinv)"
    using r c by simp
  moreover have "0 \<le> rnd (d * d)"
    using r by simp
  ultimately have "0 \<le> sm"
    unfolding sm_def using r by simp
  then have "0 \<le> rnd (sqrt sm)"
    using r by simp
  then have "0 \<le> rnd (cl * rnd (sqrt sm))"
    using r cl by simp
  moreover have "scaled_norm rnd a n p cl sm1 =
      (if a (p * n + p) > 0 then - rnd (cl * rnd (sqrt sm)) else rnd (cl * rnd (sqrt sm)))"
    by (simp add: scaled_norm_def Let_def clinv_def d_def sm_def)
  ultimately show ?thesis by simp
qed

lemma pivot_new_cl_sign:
  assumes "\<forall>x. 0 \<le> x \<longrightarrow> 0 \<le> rnd x" and "0 < pivot_cl rnd a n p"
  shows "(0 < a (p * n + p) \<longrightarrow> pivot_new_cl rnd a n p \<le> 0)
       \<and> (a (p * n + p) \<le> 0 \<longrightarrow> 0 \<le> pivot_new_cl rnd a n p)"
  unfolding pivot_new_cl_def
  by (rule scaled_norm_sign) (use assms row_scan_sum_nonneg in \<open>simp_all add: pivot_cl_def\<close>)

lemma keeps_sign_underflow: "keeps_sign underflow"
  by (simp add: keeps_sign_def underflow_def)

lemma tiny2_row_scan: "row_scan underflow tiny2 2 0 = (1 / 2 ^ 600, 0)"
  by (simp add: row_scan_def tiny2_def underflow_def upt_rec)

lemma tiny2_cl: "pivot_cl underflow tiny2 2 0 = 1 / 2 ^ 600"
  by (simp add: pivot_cl_def tiny2_row_scan)

lemma tiny2_new_cl: "pivot_new_cl underflow tiny2 2 0 = 0"
  by (simp add: pivot_new_cl_def tiny2_row_scan scaled_norm_def tiny2_def underflow_def Let_def)

lemma tiny2_b: "pivot_b underflow tiny2 2 0 = 0"
  unfolding pivot_b_def pivot_up_def tiny2_new_cl by (simp add: underflow_def tiny2_def)

text \<open>
  Claim C10, as stated, fails. It says that a pivot with \<open>cl > 0\<close> and \<open>b \<ge> 0\<close> does
  not leave its matrix row unchanged. On the row \<open>(0, 1 / 2 ^ 600)\<close> the scan gives
  \<open>cl = 1 / 2 ^ 600 > 0\<close>; the square of the second entry underflows, so \<open>sm1\<close>, \<open>sm\<close>
  and the new \<open>cl\<close> are zero, \<open>up = 0\<close> and \<open>b = 0\<close>. Line 89 stores the new \<open>cl = 0\<close>
  over \<open>M[0,0] = 0\<close>: the pass, and the whole task, leave the matrix as it was.
\<close>

theorem b_degenerate_row_unchanged_counterexample:
  "0 < pivot_cl underflow (mat tiny2_state) 2 0
   \<and> 0 \<le> pivot_b underflow (mat tiny2_state) 2 0
   \<and> mat (factor_pivot underflow 2 1 2 0 tiny2_state) = mat tiny2_state
   \<and> mat (complete_task1 underflow tiny2_state 2 2 0 1 0 2) = mat tiny2_state
   \<and> global_up_array (complete_task1 underflow tiny2_state 2 2 0 1 0 2) = [0]
   \<and> global_b_array (complete_task1 underflow tiny2_state 2 2 0 1 0 2) = [0]"
proof -
  have m: "mat tiny2_state = tiny2" by (simp add: tiny2_state_def)
  have h1: "0 < pivot_cl underflow (mat tiny2_state) 2 0" by (simp add: m tiny2_cl)
  have h2: "0 \<le> pivot_b underflow (mat tiny2_state) 2 0" by (simp add: m tiny2_b)
  have "re < 0 \<or> 0 \<le> pivot_b underflow (mat tiny2_state) 2 0" for re :: nat
    using h2 by simp
  then have eq: "factor_pivot underflow 2 (Suc 0) 2 0 tiny2_state =
      (emit (Pivot 0) tiny2_state)\<lparr>mat := (mat tiny2_state)(0 * 2 + 0 :=
         pivot_new_cl underflow (mat tiny2_state) 2 0)\<rparr>"
    by (rule factor_pivot_degenerate [OF h1])
  have z: "tiny2 0 = 0" by (simp add: tiny2_def)
  have same: "tiny2(0 := 0) = tiny2"
    using z by (metis fun_upd_idem_iff)
  have fp: "factor_pivot underflow 2 (Suc 0) 2 0 tiny2_state = (emit (Pivot 0) tiny2_state)"
    unfolding eq by (simp add: m tiny2_new_cl same)
  have ct: "complete_task1 underflow tiny2_state 2 2 0 1 0 2 = emit (Pivot 0) tiny2_state"
    by (simp add: complete_task1_def fp)
  have c1: "mat (factor_pivot underflow 2 1 2 0 tiny2_state) = mat tiny2_state"
    using fp by simp
  have c2: "mat (complete_task1 underflow tiny2_state 2 2 0 1 0 2) = mat tiny2_state"
    "global_up_array (complete_task1 underflow tiny2_state 2 2 0 1 0 2) = [0]"
    "global_b_array (complete_task1 underflow tiny2_state 2 2 0 1 0 2) = [0]"
    unfolding ct by (simp_all add: tiny2_state_def)
  show ?thesis
    using h1 h2 c1 c2 by blast
qed

text \<open>
  Claim C10, amended. When \<open>cl > 0\<close> after the row scan but \<open>b = up * cl \<ge> 0\<close> at line
  98, the pass has already stored the new \<open>cl\<close> in the diagonal cell (line 89): the matrix
  after the pass is the matrix before it with that one cell overwritten. Only the
  reflector store and the reflector application are skipped: both reflector arrays are
  unchanged and the pass enters no column loop body. For a rounding that keeps
  non-negative numbers non-negative (\<open>keeps_sign\<close>), the new \<open>cl\<close> is never positive when the old
  \<open>M[p,p]\<close> is positive and never negative otherwise, so the diagonal entry, and with it
  the row, is changed whenever the old \<open>M[p,p]\<close> is not zero; the row is left as it was
  exactly when \<open>M[p,p] = 0\<close> and the new \<open>cl\<close> is zero as well.
\<close>

theorem b_degenerate_pivot_overwrites_diagonal:
  assumes "0 < pivot_cl rnd (mat s) n p" and "0 \<le> pivot_b rnd (mat s) n p"
  shows "mat (factor_pivot rnd n re ce p s) = (mat s)(p * n + p := pivot_new_cl rnd (mat s) n p)
    \<and> global_up_array (factor_pivot rnd n re ce p s) = global_up_array s
    \<and> global_b_array (factor_pivot rnd n re ce p s) = global_b_array s
    \<and> trace (factor_pivot rnd n re ce p s) = trace s @ [Pivot p]
    \<and> (keeps_sign rnd \<longrightarrow>
         (mat s (p * n + p) \<noteq> 0 \<longrightarrow>
            mat (factor_pivot rnd n re ce p s) (p * n + p) \<noteq> mat s (p * n + p))
       \<and> ((mat (factor_pivot rnd n re ce p s) = mat s) =
            (mat s (p * n + p) = 0 \<and> pivot_new_cl rnd (mat s) n p = 0)))"
proof -
  have eq: "factor_pivot rnd n re ce p s =
     (emit (Pivot p) s)\<lparr>mat := (mat s)(p * n + p := pivot_new_cl rnd (mat s) n p)\<rparr>"
    using assms by (simp add: factor_pivot_degenerate)
  have upd: "((mat s)(p * n + p := pivot_new_cl rnd (mat s) n p) = mat s) =
        (pivot_new_cl rnd (mat s) n p = mat s (p * n + p))"
    by (metis fun_upd_idem_iff)
  have sign: "(pivot_new_cl rnd (mat s) n p = mat s (p * n + p)) =
        (mat s (p * n + p) = 0 \<and> pivot_new_cl rnd (mat s) n p = 0)"
    if r: "keeps_sign rnd"
    using pivot_new_cl_sign [OF r [unfolded keeps_sign_def] assms(1)] by (cases "0 < mat s (p * n + p)") auto
  show ?thesis
    using sign by (auto simp add: eq upd)
qed

theorem b_degenerate_pivot_witness:
  "0 < pivot_cl underflow (mat tiny_state) 1 0
   \<and> 0 \<le> pivot_b underflow (mat tiny_state) 1 0
   \<and> keeps_sign underflow
   \<and> mat tiny_state 0 = - (1 / 2 ^ 600)
   \<and> mat (factor_pivot underflow 1 1 1 0 tiny_state) 0 = 1 / 2 ^ 600
   \<and> mat (factor_pivot underflow 1 1 1 0 tiny_state) \<noteq> mat tiny_state
   \<and> global_up_array (factor_pivot underflow 1 1 1 0 tiny_state) = [0]
   \<and> global_b_array (factor_pivot underflow 1 1 1 0 tiny_state) = [0]
   \<and> trace (factor_pivot underflow 1 1 1 0 tiny_state) = [Pivot 0]"
proof -
  have m: "mat tiny_state = tiny" by (simp add: tiny_state_def)
  have h1: "0 < pivot_cl underflow (mat tiny_state) 1 0" by (simp add: m tiny_cl)
  have h2: "0 \<le> pivot_b underflow (mat tiny_state) 1 0" by (simp add: m tiny_b)
  have c0: "mat tiny_state 0 = - (1 / 2 ^ 600)" by (simp add: m tiny_def)
  have nz: "mat tiny_state (0 * 1 + 0) \<noteq> 0" by (simp add: m tiny_def)
  note r = b_degenerate_pivot_overwrites_diagonal [OF h1 h2, of 1 1]
  have c1: "mat (factor_pivot underflow 1 1 1 0 tiny_state) 0 = 1 / 2 ^ 600"
    using r by (simp add: m tiny_new_cl)
  have "(mat (factor_pivot underflow 1 1 1 0 tiny_state) = mat tiny_state) =
        (mat tiny_state (0 * 1 + 0) = 0 \<and> pivot_new_cl underflow (mat tiny_state) 1 0 = 0)"
    using r keeps_sign_underflow by blast
  then have c2: "mat (factor_pivot underflow 1 1 1 0 tiny_state) \<noteq> mat tiny_state"
    using nz by blast
  have c3: "global_up_array (factor_pivot underflow 1 1 1 0 tiny_state) = [0]"
    "global_b_array (factor_pivot underflow 1 1 1 0 tiny_state) = [0]"
    "trace (factor_pivot underflow 1 1 1 0 tiny_state) = [Pivot 0]"
    using r by (simp_all add: tiny_state_def)
  show ?thesis using h1 h2 c0 c1 c2 c3 keeps_sign_underflow by blast
qed

lemma dense2_dot: "dot_tail exact dense2 2 0 1 (exact (dense2 (1 * 2 + 0) * 0)) = 8"
  by (simp add: dot_tail_def dense2_def exact_def upt_rec)

text \<open>
  Claim C4. A degenerate pivot is skipped and no error value exists in the kernels (they
  are total functions on the state). When \<open>cl \<le> 0\<close> the pass changes neither the
  matrix nor the reflector arrays; when \<open>cl > 0\<close> and \<open>b \<ge> 0\<close> it changes neither
  reflector array; in both cases nothing is stored, so a slot that was zero stays zero.
  A later pass of \<^verbatim>\<open>complete_task2\<close> over a pivot whose two slots are zero leaves the
  matrix as it was, for any rounding that keeps zero and for a matrix of representable
  numbers; and whenever the dot product \<open>sm\<close> is zero, the column step returns at once.
\<close>

theorem degenerate_pivot_is_skipped:
  assumes "rnd 0 = 0" and "\<forall>c. rnd (mat s c) = mat s c"
  shows "(pivot_cl rnd (mat s) n p \<le> 0 \<longrightarrow>
            mat (factor_pivot rnd n re ce p s) = mat s
          \<and> global_up_array (factor_pivot rnd n re ce p s) = global_up_array s
          \<and> global_b_array (factor_pivot rnd n re ce p s) = global_b_array s
          \<and> refl_stores (trace (factor_pivot rnd n re ce p s)) = refl_stores (trace s))
       \<and> (0 < pivot_cl rnd (mat s) n p \<and> 0 \<le> pivot_b rnd (mat s) n p \<longrightarrow>
            global_up_array (factor_pivot rnd n re ce p s) = global_up_array s
          \<and> global_b_array (factor_pivot rnd n re ce p s) = global_b_array s
          \<and> refl_stores (trace (factor_pivot rnd n re ce p s)) = refl_stores (trace s))
       \<and> (global_up_array s ! p = 0 \<and> global_b_array s ! p = 0 \<longrightarrow>
            mat (update_pivot rnd n cs ce p s) = mat s)
       \<and> (dot_tail rnd (mat s) n p j (rnd (mat s (j * n + p) * up)) = 0 \<longrightarrow>
            apply_reflector rnd n p up b j s = emit (Column p j) s)"
proof (intro conjI impI)
  assume "pivot_cl rnd (mat s) n p \<le> 0"
  then have eq: "factor_pivot rnd n re ce p s = emit (Pivot p) s"
    by (rule factor_pivot_skip)
  show "mat (factor_pivot rnd n re ce p s) = mat s"
    and "global_up_array (factor_pivot rnd n re ce p s) = global_up_array s"
    and "global_b_array (factor_pivot rnd n re ce p s) = global_b_array s"
    and "refl_stores (trace (factor_pivot rnd n re ce p s)) = refl_stores (trace s)"
    by (simp_all add: eq)
next
  assume "0 < pivot_cl rnd (mat s) n p \<and> 0 \<le> pivot_b rnd (mat s) n p"
  then have eq: "factor_pivot rnd n re ce p s =
      (emit (Pivot p) s)\<lparr>mat := (mat s)(p * n + p := pivot_new_cl rnd (mat s) n p)\<rparr>"
    by (simp add: factor_pivot_degenerate)
  show "global_up_array (factor_pivot rnd n re ce p s) = global_up_array s"
    and "global_b_array (factor_pivot rnd n re ce p s) = global_b_array s"
    and "refl_stores (trace (factor_pivot rnd n re ce p s)) = refl_stores (trace s)"
    by (simp_all add: eq)
next
  assume "global_up_array s ! p = 0 \<and> global_b_array s ! p = 0"
  then show "mat (update_pivot rnd n cs ce p s) = mat s"
    using assms by (simp add: update_pivot_zero_reflector)
next
  assume "dot_tail rnd (mat s) n p j (rnd (mat s (j * n + p) * up)) = 0"
  then show "apply_reflector rnd n p up b j s = emit (Column p j) s"
    by (rule apply_reflector_early_exit)
qed

theorem degenerate_pivot_is_skipped_witness:
  "exact 0 = 0 \<and> (\<forall>c. exact (mat zero_state c) = mat zero_state c)
   \<and> pivot_cl exact (mat zero_state) 1 0 \<le> 0
   \<and> mat (factor_pivot exact 1 1 1 0 zero_state) = mat zero_state
   \<and> global_up_array (factor_pivot exact 1 1 1 0 zero_state) = [0]
   \<and> global_b_array (factor_pivot exact 1 1 1 0 zero_state) = [0]
   \<and> refl_stores (trace (factor_pivot exact 1 1 1 0 zero_state)) = []
   \<and> dot_tail exact (mat zero_state) 1 0 0 (exact (mat zero_state (0 * 1 + 0) * 2)) = 0
   \<and> apply_reflector exact 1 0 2 (- (1 / 2)) 0 zero_state = emit (Column 0 0) zero_state
   \<and> underflow 0 = 0 \<and> (\<forall>c. underflow (mat tiny_state c) = mat tiny_state c)
   \<and> 0 < pivot_cl underflow (mat tiny_state) 1 0 \<and> 0 \<le> pivot_b underflow (mat tiny_state) 1 0
   \<and> global_up_array (factor_pivot underflow 1 1 1 0 tiny_state) = [0]
   \<and> global_b_array (factor_pivot underflow 1 1 1 0 tiny_state) = [0]
   \<and> refl_stores (trace (factor_pivot underflow 1 1 1 0 tiny_state)) = []
   \<and> (\<forall>c. exact (mat dense2_state c) = mat dense2_state c)
   \<and> global_up_array dense2_state ! 0 = 0 \<and> global_b_array dense2_state ! 0 = 0
   \<and> dot_tail exact (mat dense2_state) 2 0 1 (exact (mat dense2_state (1 * 2 + 0) * 0)) = 8
   \<and> mat (update_pivot exact 2 0 2 0 dense2_state) = mat dense2_state"
proof -
  have e0: "exact 0 = 0" and u0: "underflow 0 = 0"
    by (simp_all add: exact_def underflow_def)
  have rz: "\<forall>c. exact (mat zero_state c) = mat zero_state c"
    and rd: "\<forall>c. exact (mat dense2_state c) = mat dense2_state c"
    by (simp_all add: exact_def)
  have rt: "\<forall>c. underflow (mat tiny_state c) = mat tiny_state c"
    using tiny_representable by (simp add: tiny_state_def)
  have zc: "pivot_cl exact (mat zero_state) 1 0 \<le> 0"
    by (simp add: pivot_cl_def row_scan_def zero_state_def)
  have zd: "dot_tail exact (mat zero_state) 1 0 0 (exact (mat zero_state (0 * 1 + 0) * 2)) = 0"
    by (simp add: dot_tail_def zero_state_def exact_def)
  have tc: "0 < pivot_cl underflow (mat tiny_state) 1 0"
    and tb: "0 \<le> pivot_b underflow (mat tiny_state) 1 0"
    by (simp_all add: tiny_state_def tiny_cl tiny_b)
  have du: "global_up_array dense2_state ! 0 = 0" "global_b_array dense2_state ! 0 = 0"
    by (simp_all add: dense2_state_def)
  have dd: "dot_tail exact (mat dense2_state) 2 0 1 (exact (mat dense2_state (1 * 2 + 0) * 0)) = 8"
    using dense2_dot by (simp add: dense2_state_def)
  note z = degenerate_pivot_is_skipped [OF e0 rz, where n = 1 and p = 0 and re = 1 and ce = 1
    and cs = 0 and j = 0 and up = 2 and b = "- (1 / 2)"]
  note t = degenerate_pivot_is_skipped [OF u0 rt, where n = 1 and p = 0 and re = 1 and ce = 1]
  note d = degenerate_pivot_is_skipped [OF e0 rd, where n = 2 and p = 0 and cs = 0 and ce = 2]
  have z1: "mat (factor_pivot exact 1 1 1 0 zero_state) = mat zero_state"
    "global_up_array (factor_pivot exact 1 1 1 0 zero_state) = [0]"
    "global_b_array (factor_pivot exact 1 1 1 0 zero_state) = [0]"
    "refl_stores (trace (factor_pivot exact 1 1 1 0 zero_state)) = []"
    using z zc by (simp_all add: zero_state_def)
  have z2: "apply_reflector exact 1 0 2 (- (1 / 2)) 0 zero_state = emit (Column 0 0) zero_state"
    using z zd by blast
  have t1: "global_up_array (factor_pivot underflow 1 1 1 0 tiny_state) = [0]"
    "global_b_array (factor_pivot underflow 1 1 1 0 tiny_state) = [0]"
    "refl_stores (trace (factor_pivot underflow 1 1 1 0 tiny_state)) = []"
    using t tc tb by (simp_all add: tiny_state_def)
  have d1: "mat (update_pivot exact 2 0 2 0 dense2_state) = mat dense2_state"
    using d du by blast
  show ?thesis
    using e0 u0 rz rd rt zc zd tc tb du dd z1 z2 t1 d1 by blast
qed

section \<open>The pivot step, operation by operation\<close>

lemma fold_max_and_sum:
  fixes h :: "'k \<Rightarrow> real"
  assumes "\<And>k c s. f k (c, s) = (max (h k) c, g k s)"
  shows "fold f ks (c, s) = (Max (insert c (h ` set ks)), fold g ks s)"
proof (induction ks arbitrary: c s)
  case Nil
  then show ?case by simp
next
  case (Cons k ks)
  have mx: "Max (insert (max (h k) c) (h ` set ks)) = Max (insert c (insert (h k) (h ` set ks)))"
  proof (cases "set ks = {}")
    case True
    then show ?thesis by (simp add: max.commute)
  next
    case False
    then show ?thesis by (simp add: max.assoc max.commute max.left_commute)
  qed
  show ?case
    by (simp add: assms Cons.IH mx del: Max_insert insert_iff)
qed

lemma row_scan_eq: "row_scan rnd a n p = (spec_cl a n p, spec_sm1 rnd a n p)"
  unfolding row_scan_def spec_cl_def spec_sm1_def
  by (subst fold_max_and_sum [where h = "\<lambda>k. \<bar>a (p * n + k)\<bar>"
        and g = "\<lambda>k s. rnd (s + rnd ((a (p * n + k))\<^sup>2))"])
     (simp_all add: Let_def power2_eq_square)

lemma pivot_cl_eq: "pivot_cl rnd a n p = spec_cl a n p"
  by (simp add: pivot_cl_def row_scan_eq)

lemma pivot_new_cl_eq: "pivot_new_cl rnd a n p = spec_new_cl rnd a n p"
  by (simp add: pivot_new_cl_def row_scan_eq scaled_norm_def spec_new_cl_def Let_def)

lemma pivot_up_eq: "pivot_up rnd a n p = spec_up rnd a n p"
  by (simp add: pivot_up_def spec_up_def pivot_new_cl_eq)

lemma pivot_b_eq: "pivot_b rnd a n p = spec_b rnd a n p"
  by (simp add: pivot_b_def spec_b_def pivot_new_cl_eq pivot_up_eq)

lemma axpy_tail_frame:
  "\<forall>i\<in>set ks. c \<noteq> j * n + i \<Longrightarrow>
   fold (\<lambda>i a. a(j * n + i := rnd (a (j * n + i) + rnd (sm * a (p * n + i))))) ks a c = a c"
  by (induction ks arbitrary: a) simp_all

lemma apply_reflector_frame:
  assumes "c \<noteq> j * n + p" and "\<forall>i. p < i \<and> i < n \<longrightarrow> c \<noteq> j * n + i"
  shows "mat (apply_reflector rnd n p up b j s) c = mat s c"
  using assms by (simp add: apply_reflector_def axpy_tail_def axpy_tail_frame Let_def)

lemma fold_apply_reflector_frame:
  assumes "\<forall>j\<in>set js. c \<noteq> j * n + p \<and> (\<forall>i. p < i \<and> i < n \<longrightarrow> c \<noteq> j * n + i)"
  shows "mat (fold (apply_reflector rnd n p up b) js s) c = mat s c"
  using assms by (induction js arbitrary: s) (simp_all add: apply_reflector_frame)

lemma cell_below_row:
  assumes "p < j" and "i < (n::nat)"
  shows "p * n + i < j * n"
proof -
  have "p * n + i < p * n + n" using assms by simp
  also have "\<dots> = Suc p * n" by simp
  also have "\<dots> \<le> j * n" using assms by (intro mult_le_mono1) simp
  finally show ?thesis .
qed

lemma diagonal_untouched_by_lower_rows:
  assumes "p < n"
  shows "mat (fold (apply_reflector rnd n p up b) [Suc p ..< ce] s) (p * n + p) = mat s (p * n + p)"
proof (rule fold_apply_reflector_frame, intro ballI conjI allI impI)
  fix j assume "j \<in> set [Suc p ..< ce]"
  then have pj: "p < j" by simp
  from cell_below_row [OF pj assms] show "p * n + p \<noteq> j * n + p" by linarith
  fix i
  from cell_below_row [OF pj assms] show "p * n + p \<noteq> j * n + i" by linarith
qed







lemma underflow_keeps: "1 \<le> \<bar>x\<bar> \<Longrightarrow> underflow x = x"
proof -
  assume a: "1 \<le> \<bar>x\<bar>"
  have "(1::real) / 2 ^ 1075 < 1" by simp
  then have "\<not> \<bar>x\<bar> \<le> 1 / 2 ^ 1075" using a by linarith
  then show ?thesis by (simp only: underflow_def if_False)
qed

lemma underflow_zero: "underflow 0 = 0"
  by (simp add: underflow_def)

lemma underflow_small:
  "underflow 1 = 1" "underflow (numeral k) = numeral k"
  "underflow (- numeral k) = - numeral k"
  by (simp_all add: underflow_keeps)

lemma underflow_quarter: "underflow (- (1 / 4)) = - (1 / 4)"
proof -
  have "(1::real) / 2 ^ 1075 < 1 / 2 ^ 2"
    by (intro divide_strict_left_mono power_strict_increasing) simp_all
  then have "\<not> \<bar>- (1 / 4)::real\<bar> \<le> 1 / 2 ^ 1075" by simp
  then show ?thesis by (simp only: underflow_def if_False)
qed

lemma ones5_row: "row_scan underflow ones5 5 0 = (1, 4)"
  by (simp add: row_scan_def ones5_def underflow_small underflow_zero upt_rec)

lemma ones5_cl: "pivot_cl underflow ones5 5 0 = 1"
  by (simp add: pivot_cl_def ones5_row)

lemma ones5_sm1: "snd (row_scan underflow ones5 5 0) = 4"
  by (simp add: ones5_row)

lemma ones5_new_cl: "pivot_new_cl underflow ones5 5 0 = 2"
  by (simp add: pivot_new_cl_def scaled_norm_def ones5_row ones5_def underflow_small
      underflow_zero Let_def)

lemma ones5_up: "pivot_up underflow ones5 5 0 = - 2"
  unfolding pivot_up_def ones5_new_cl by (simp add: underflow_small ones5_def)

lemma ones5_b: "pivot_b underflow ones5 5 0 = - 4"
  unfolding pivot_b_def ones5_new_cl ones5_up by (simp add: underflow_small)

text \<open>
  Claim C1. A pass of the pivot loop of \<^verbatim>\<open>complete_task1\<close> with \<open>cl > 0\<close> computes
  what section 4.5.1 says, for every rounding of the double operations: the row scan
  yields the maximum \<open>cl\<close> and the sum of squares \<open>sm1\<close>; the new \<open>cl\<close> is
  \<open>cl * sqrt sm\<close> with \<open>sm = d\<^sup>2 + sm1 * clinv\<^sup>2\<close>, \<open>d = M[p,p] * clinv\<close> and
  \<open>clinv = 1/cl\<close>, negated when the old \<open>M[p,p]\<close> is positive; \<open>up = M[p,p] - cl\<close>;
  \<open>M[p,p]\<close> holds the new \<open>cl\<close> after the pass; and \<open>b = up * M[p,p]\<close>. The values
  are observable after the pass: the diagonal cell holds the new \<open>cl\<close>, and when
  \<open>b < 0\<close>, so that the pass goes on to line 103, slot \<open>p\<close> of
  \<^verbatim>\<open>global_up_array\<close> holds \<open>up\<close> and slot \<open>p\<close> of \<^verbatim>\<open>global_b_array\<close> holds \<open>1 / b\<close>.
\<close>

theorem panel_factor_pivot_formula:
  assumes "0 < pivot_cl rnd (mat s) n p" and "p < n" and "p < re"
    and "p < length (global_up_array s)" and "p < length (global_b_array s)"
  shows "row_scan rnd (mat s) n p = (spec_cl (mat s) n p, spec_sm1 rnd (mat s) n p)
     \<and> pivot_new_cl rnd (mat s) n p = spec_new_cl rnd (mat s) n p
     \<and> pivot_up rnd (mat s) n p = spec_up rnd (mat s) n p
     \<and> pivot_b rnd (mat s) n p = spec_b rnd (mat s) n p
     \<and> mat (factor_pivot rnd n re ce p s) (p * n + p) = spec_new_cl rnd (mat s) n p
     \<and> (spec_b rnd (mat s) n p < 0 \<longrightarrow>
           global_up_array (factor_pivot rnd n re ce p s) ! p = spec_up rnd (mat s) n p
         \<and> global_b_array (factor_pivot rnd n re ce p s) ! p = rnd (1 / spec_b rnd (mat s) n p)
         \<and> trace (factor_pivot rnd n re ce p s) =
             trace s @ Pivot p # StoreRefl p # map (Column p) [p + 1 ..< ce])"
proof -
  have le: "p \<le> re" using assms(3) by simp
  have m: "mat (factor_pivot rnd n re ce p s) (p * n + p) = spec_new_cl rnd (mat s) n p"
  proof (cases "pivot_b rnd (mat s) n p < 0")
    case True
    show ?thesis
      by (simp add: factor_pivot_store [OF assms(1) le True]
          diagonal_untouched_by_lower_rows [OF assms(2)] pivot_new_cl_eq)
  next
    case False
    then have "re < p \<or> 0 \<le> pivot_b rnd (mat s) n p" by simp
    then show ?thesis
      by (simp add: factor_pivot_degenerate [OF assms(1)] pivot_new_cl_eq)
  qed
  have st: "global_up_array (factor_pivot rnd n re ce p s) ! p = spec_up rnd (mat s) n p
         \<and> global_b_array (factor_pivot rnd n re ce p s) ! p = rnd (1 / spec_b rnd (mat s) n p)
         \<and> trace (factor_pivot rnd n re ce p s) =
             trace s @ Pivot p # StoreRefl p # map (Column p) [p + 1 ..< ce]"
    if b: "spec_b rnd (mat s) n p < 0"
  proof -
    have b': "pivot_b rnd (mat s) n p < 0" using b by (simp add: pivot_b_eq)
    have "stores rnd (mat s) n re p"
      using assms(1) le b' by (simp add: stores_def)
    then have "trace (factor_pivot rnd n re ce p s) =
             trace s @ Pivot p # StoreRefl p # map (Column p) [p + 1 ..< ce]"
      by (simp add: factor_pivot_trace)
    then show ?thesis
      using assms(4,5)
      by (simp add: factor_pivot_store [OF assms(1) le b'] pivot_up_eq pivot_b_eq)
  qed
  show ?thesis
    using m st by (simp add: row_scan_eq pivot_new_cl_eq pivot_up_eq pivot_b_eq)
qed

theorem panel_factor_pivot_formula_witness:
  "0 < pivot_cl underflow (mat ones5_state) 5 0
   \<and> (0::nat) < 5 \<and> 0 < length (global_up_array ones5_state)
   \<and> 0 < length (global_b_array ones5_state)
   \<and> spec_cl (mat ones5_state) 5 0 = 1
   \<and> spec_sm1 underflow (mat ones5_state) 5 0 = 4
   \<and> spec_new_cl underflow (mat ones5_state) 5 0 = 2
   \<and> spec_up underflow (mat ones5_state) 5 0 = - 2
   \<and> spec_b underflow (mat ones5_state) 5 0 = - 4
   \<and> mat (factor_pivot underflow 5 5 5 0 ones5_state) 0 = 2
   \<and> global_up_array (factor_pivot underflow 5 5 5 0 ones5_state) ! 0 = - 2
   \<and> global_b_array (factor_pivot underflow 5 5 5 0 ones5_state) ! 0 = - (1 / 4)"
proof -
  have m: "mat ones5_state = ones5" by (simp add: ones5_state_def)
  have h1: "0 < pivot_cl underflow (mat ones5_state) 5 0" by (simp add: m ones5_cl)
  have h2: "(0::nat) < 5" by simp
  have h4: "0 < length (global_up_array ones5_state)"
    and h5: "0 < length (global_b_array ones5_state)"
    by (simp_all add: ones5_state_def)
  note r = panel_factor_pivot_formula [OF h1 h2 h2 h4 h5, of 5]
  have c: "spec_cl (mat ones5_state) 5 0 = 1"
    using r ones5_cl by (simp add: m pivot_cl_def)
  have q: "spec_sm1 underflow (mat ones5_state) 5 0 = 4"
    using r ones5_sm1 by (simp add: m)
  have n: "spec_new_cl underflow (mat ones5_state) 5 0 = 2"
    and u: "spec_up underflow (mat ones5_state) 5 0 = - 2"
    and b: "spec_b underflow (mat ones5_state) 5 0 = - 4"
    using r ones5_new_cl ones5_up ones5_b by (simp_all add: m)
  have o1: "mat (factor_pivot underflow 5 5 5 0 ones5_state) 0 = 2"
    using r n by simp
  have o2: "global_up_array (factor_pivot underflow 5 5 5 0 ones5_state) ! 0 = - 2"
    "global_b_array (factor_pivot underflow 5 5 5 0 ones5_state) ! 0 = - (1 / 4)"
    using r u b by (simp_all add: underflow_quarter)
  show ?thesis using h1 h2 h4 h5 c q n u b o1 o2 by blast
qed

section \<open>The identity matrix\<close>

lemma cell_inj:
  assumes "r * n + c = r' * n + c'" and "c < n" and "c' < (n::nat)"
  shows "r = r' \<and> c = c'"
proof -
  have "(r * n + c) div n = r" "(r' * n + c') div n = r'"
    using assms(2,3) by simp_all
  then have "r = r'" using assms(1) by simp
  then show ?thesis using assms(1) by simp
qed

lemma unit_diagonalD:
  assumes "unit_diagonal n a"
  shows "r < n \<Longrightarrow> a (r * n + r) = 1 \<or> a (r * n + r) = - 1"
    and "r < n \<Longrightarrow> c < n \<Longrightarrow> r \<noteq> c \<Longrightarrow> a (r * n + c) = 0"
  using assms unfolding unit_diagonal_def by (auto simp: abs_if split: if_splits)

lemma unit_diagonal_flip:
  assumes "unit_diagonal n a" and "p < n" and "v = 1 \<or> v = - 1"
  shows "unit_diagonal n (a(p * n + p := v))"
  unfolding unit_diagonal_def
proof (intro conjI allI impI)
  fix r assume "r < n"
  then show "\<bar>(a(p * n + p := v)) (r * n + r)\<bar> = 1"
    using assms unfolding unit_diagonal_def by auto
next
  fix r c assume rc: "r < n" "c < n" "r \<noteq> c"
  then have "r * n + c \<noteq> p * n + p"
    using cell_inj [of r n c p p] assms(2) by blast
  then show "(a(p * n + p := v)) (r * n + c) = 0"
    using rc assms(1) unfolding unit_diagonal_def by simp
qed

lemma row_scan_zero_tail:
  assumes "\<forall>k\<in>set ks. a (q + k) = (0::real)" and "rnd 0 = 0" and "0 \<le> c"
  shows "fold (\<lambda>k (cl, sm1). let sm = \<bar>a (q + k)\<bar> in (max sm cl, rnd (sm1 + rnd (sm * sm))))
              ks (c, 0) = (c, 0)"
  using assms by (induction ks) (simp_all add: Let_def max_def)

lemma row_scan_unit:
  assumes "unit_diagonal n a" and "p < n" and "rnd 0 = 0"
  shows "row_scan rnd a n p = (1, 0)"
proof -
  have tail: "\<forall>k\<in>set [p + 1 ..< n]. a (p * n + k) = 0"
    using unit_diagonalD(2) [OF assms(1,2)] by simp
  have d: "\<bar>a (p * n + p)\<bar> = 1"
    using assms(1,2) unfolding unit_diagonal_def by simp
  show ?thesis
    unfolding row_scan_def d
    using row_scan_zero_tail [where a = a and q = "p * n" and rnd = rnd and c = 1, OF tail assms(3)]
    by simp
qed

lemma scaled_norm_unit:
  assumes "keeps_small rnd" and "a (p * n + p) = 1 \<or> a (p * n + p) = - 1"
  shows "scaled_norm rnd a n p 1 0 = - a (p * n + p)"
  using assms by (auto simp add: scaled_norm_def keeps_small_def Let_def)

lemma dot_tail_zero_row:
  assumes "\<forall>i. p < i \<and> i < n \<longrightarrow> a (p * n + i) = 0" and "rnd 0 = 0" and "rnd sm0 = sm0"
  shows "dot_tail rnd a n p j sm0 = sm0"
  unfolding dot_tail_def
  by (rule fold_fixed_on) (simp add: assms)


lemma apply_reflector_off_diagonal:
  assumes "unit_diagonal n (mat s)" and "p < n" and "j < n" and "j \<noteq> p" and "rnd 0 = 0"
  shows "apply_reflector rnd n p up b j s = emit (Column p j) s"
proof -
  have z: "mat s (j * n + p) = 0"
    using unit_diagonalD(2) [OF assms(1,3,2,4)] .
  have tail: "\<forall>i. p < i \<and> i < n \<longrightarrow> mat s (p * n + i) = 0"
    using unit_diagonalD(2) [OF assms(1,2)] by simp
  have "dot_tail rnd (mat s) n p j 0 = 0"
    by (rule dot_tail_zero_row) (use tail assms(5) in simp_all)
  then have "dot_tail rnd (mat s) n p j (rnd (mat s (j * n + p) * up)) = 0"
    using assms(5) by (simp add: z)
  then show ?thesis by (rule apply_reflector_early_exit)
qed

lemma fold_apply_reflector_off_diagonal:
  assumes "unit_diagonal n (mat s)" and "p < n" and "\<forall>j\<in>set js. j < n \<and> j \<noteq> p" and "rnd 0 = 0"
  shows "mat (fold (apply_reflector rnd n p up b) js s) = mat s"
  using assms by (induction js arbitrary: s) (simp_all add: apply_reflector_off_diagonal)

lemma apply_reflector_on_diagonal:
  assumes ud: "unit_diagonal n (mat s)" and p: "p < n" and ks: "keeps_small rnd"
    and ub: "(up = 0 \<and> b = 0) \<or> (\<bar>up\<bar> = 2 \<and> b = - (1 / 2))"
  shows "unit_diagonal n (mat (apply_reflector rnd n p up b p s))"
proof -
  have r0: "rnd 0 = 0" using ks by (simp add: keeps_small_def)
  have tail: "\<forall>i. p < i \<and> i < n \<longrightarrow> mat s (p * n + i) = 0"
    using unit_diagonalD(2) [OF ud p] by simp
  have d: "mat s (p * n + p) = 1 \<or> mat s (p * n + p) = - 1"
    using unit_diagonalD(1) [OF ud p] .
  from ub show ?thesis
  proof
    assume "up = 0 \<and> b = 0"
    moreover have "dot_tail rnd (mat s) n p p 0 = 0"
      by (rule dot_tail_zero_row) (use tail r0 in simp_all)
    ultimately have "dot_tail rnd (mat s) n p p (rnd (mat s (p * n + p) * up)) = 0"
      using r0 by simp
    then have "apply_reflector rnd n p up b p s = emit (Column p p) s"
      by (rule apply_reflector_early_exit)
    then show ?thesis using ud by simp
  next
    assume h: "\<bar>up\<bar> = 2 \<and> b = - (1 / 2)"
    then have u: "up = 2 \<or> up = - 2" by auto
    define sm0 where "sm0 = rnd (mat s (p * n + p) * up)"
    have sm0: "sm0 = mat s (p * n + p) * up" "rnd sm0 = sm0" "sm0 \<noteq> 0"
      using d u ks by (auto simp: sm0_def keeps_small_def)
    have dot: "dot_tail rnd (mat s) n p p sm0 = sm0"
      by (rule dot_tail_zero_row) (use tail r0 sm0(2) in simp_all)
    define sm where "sm = rnd (sm0 * b)"
    have v: "rnd (mat s (p * n + p) + rnd (sm * up)) = - mat s (p * n + p)"
      using d u ks h by (auto simp: sm_def sm0(1) keeps_small_def)
    define a1 where "a1 = (mat s)(p * n + p := - mat s (p * n + p))"
    have ud1: "unit_diagonal n a1"
      unfolding a1_def using d by (intro unit_diagonal_flip [OF ud p]) auto
    have "axpy_tail rnd n p p sm a1 = a1"
      unfolding axpy_tail_def
    proof (rule fold_fixed_on)
      fix i assume "i \<in> set [p + 1 ..< n]"
      then have "p < i" "i < n" by simp_all
      then have "a1 (p * n + i) = 0"
        using unit_diagonalD(2) [OF ud1 p] by simp
      then show "a1(p * n + i := rnd (a1 (p * n + i) + rnd (sm * a1 (p * n + i)))) = a1"
        using r0 by (simp add: fun_upd_idem)
    qed
    then have "mat (apply_reflector rnd n p up b p s) = a1"
      using dot sm0(3) v by (simp add: apply_reflector_def Let_def sm0_def [symmetric] sm_def [symmetric] a1_def)
    then show ?thesis using ud1 by simp
  qed
qed

lemma fold_apply_reflector_unit:
  assumes "unit_diagonal n (mat s)" and "p < n" and "keeps_small rnd"
    and "(up = 0 \<and> b = 0) \<or> (\<bar>up\<bar> = 2 \<and> b = - (1 / 2))" and "\<forall>j\<in>set js. j < n"
  shows "unit_diagonal n (mat (fold (apply_reflector rnd n p up b) js s))"
  using assms
proof (induction js arbitrary: s)
  case Nil
  then show ?case by simp
next
  case (Cons j js)
  have r0: "rnd 0 = 0" using Cons.prems(3) by (simp add: keeps_small_def)
  have "unit_diagonal n (mat (apply_reflector rnd n p up b j s))"
  proof (cases "j = p")
    case True
    then show ?thesis
      using apply_reflector_on_diagonal [OF Cons.prems(1,2,3,4)] by simp
  next
    case False
    have "j < n" using Cons.prems(5) by simp
    then have "apply_reflector rnd n p up b j s = emit (Column p j) s"
      by (intro apply_reflector_off_diagonal Cons.prems(1,2) False r0)
    then show ?thesis
      using Cons.prems(1) by simp
  qed
  then show ?case using Cons by simp
qed


lemma pivot_scalars_unit:
  assumes ud: "unit_diagonal n a" and p: "p < n" and ks: "keeps_small rnd"
  shows "pivot_cl rnd a n p = 1"
    and "pivot_new_cl rnd a n p = - a (p * n + p)"
    and "pivot_up rnd a n p = 2 * a (p * n + p)"
    and "pivot_b rnd a n p = - 2"
proof -
  have r0: "rnd 0 = 0" using ks by (simp add: keeps_small_def)
  have d: "a (p * n + p) = 1 \<or> a (p * n + p) = - 1"
    using unit_diagonalD(1) [OF ud p] .
  have rs: "row_scan rnd a n p = (1, 0)"
    by (intro row_scan_unit ud p r0)
  show "pivot_cl rnd a n p = 1" by (simp add: pivot_cl_def rs)
  show new: "pivot_new_cl rnd a n p = - a (p * n + p)"
    using scaled_norm_unit [where rnd = rnd and a = a and n = n and p = p] ks d
    by (simp add: pivot_new_cl_def rs)
  show up: "pivot_up rnd a n p = 2 * a (p * n + p)"
    using d ks by (auto simp: pivot_up_def new keeps_small_def)
  show "pivot_b rnd a n p = - 2"
    using d ks by (auto simp: pivot_b_def up new keeps_small_def)
qed

lemma factor_pivot_unit:
  assumes inv: "identity_invariant n s" and p: "p < n" and re: "p \<le> re" and ce: "ce \<le> n"
    and ks: "keeps_small rnd"
  shows "identity_invariant n (factor_pivot rnd n re ce p s)"
proof -
  have ud: "unit_diagonal n (mat s)" and sl: "slots_follow_trace n s"
    using inv by (simp_all add: identity_invariant_def)
  have r0: "rnd 0 = 0" and rh: "rnd (- (1 / 2)) = - (1 / 2)"
    using ks by (simp_all add: keeps_small_def)
  have d: "mat s (p * n + p) = 1 \<or> mat s (p * n + p) = - 1"
    using unit_diagonalD(1) [OF ud p] .
  note sc = pivot_scalars_unit [OF ud p ks]
  define s2 where "s2 = emit (StoreRefl p)
         ((emit (Pivot p) s)
            \<lparr>mat := (mat s)(p * n + p := - mat s (p * n + p)),
             global_up_array := (global_up_array s)[p := 2 * mat s (p * n + p)],
             global_b_array := (global_b_array s)[p := - (1 / 2)]\<rparr>)"
  have run: "factor_pivot rnd n re ce p s =
      fold (apply_reflector rnd n p (2 * mat s (p * n + p)) (- (1 / 2))) [p + 1 ..< ce] s2"
    using factor_pivot_store [of rnd s n p re ce] re rh by (simp add: sc s2_def)
  have ud2: "unit_diagonal n (mat s2)"
    using d by (auto simp: s2_def intro!: unit_diagonal_flip [OF ud p])
  have js: "\<forall>j\<in>set [p + 1 ..< ce]. j < n \<and> j \<noteq> p"
    using ce by auto
  have m: "mat (factor_pivot rnd n re ce p s) = mat s2"
    unfolding run by (intro fold_apply_reflector_off_diagonal ud2 p js r0)
  have len: "length (global_up_array s) = n" "length (global_b_array s) = n"
    using sl by (simp_all add: slots_follow_trace_def)
  have old: "\<And>r. r < n \<Longrightarrow> r \<noteq> p \<Longrightarrow>
      (if r \<in> set (pivots_visited (trace s))
       then \<bar>global_up_array s ! r\<bar> = 2 \<and> global_b_array s ! r = - (1 / 2)
       else global_up_array s ! r = 0 \<and> global_b_array s ! r = 0)"
    using sl by (simp add: slots_follow_trace_def)
  have "slots_follow_trace n (factor_pivot rnd n re ce p s)"
    unfolding slots_follow_trace_def
  proof (intro conjI allI impI)
    show "length (global_up_array (factor_pivot rnd n re ce p s)) = n"
      and "length (global_b_array (factor_pivot rnd n re ce p s)) = n"
      by (simp_all add: run s2_def len)
    fix r assume r: "r < n"
    show "if r \<in> set (pivots_visited (trace (factor_pivot rnd n re ce p s)))
          then \<bar>global_up_array (factor_pivot rnd n re ce p s) ! r\<bar> = 2 \<and>
               global_b_array (factor_pivot rnd n re ce p s) ! r = - (1 / 2)
          else global_up_array (factor_pivot rnd n re ce p s) ! r = 0 \<and>
               global_b_array (factor_pivot rnd n re ce p s) ! r = 0"
    proof (cases "r = p")
      case True
      then show ?thesis
        using d p len by (auto simp: run s2_def)
    next
      case False
      then show ?thesis
        using old [OF r False] by (simp add: run s2_def)
    qed
  qed
  then show ?thesis
    using ud2 by (simp add: identity_invariant_def m)
qed

lemma update_pivot_unit:
  assumes inv: "identity_invariant n s" and p: "p < n" and ce: "ce \<le> n" and ks: "keeps_small rnd"
  shows "identity_invariant n (update_pivot rnd n cs ce p s)"
proof -
  have ud: "unit_diagonal n (mat s)" and sl: "slots_follow_trace n s"
    using inv by (simp_all add: identity_invariant_def)
  have ub: "(global_up_array s ! p = 0 \<and> global_b_array s ! p = 0) \<or>
            (\<bar>global_up_array s ! p\<bar> = 2 \<and> global_b_array s ! p = - (1 / 2))"
    using sl p unfolding slots_follow_trace_def by (auto split: if_splits)
  have js: "\<forall>j\<in>set [cs ..< ce]. j < n" using ce by simp
  have "unit_diagonal n (mat (update_pivot rnd n cs ce p s))"
    unfolding update_pivot_def Let_def
    by (intro fold_apply_reflector_unit p ks js) (use ud ub in simp_all)
  moreover have "slots_follow_trace n (update_pivot rnd n cs ce p s)"
    using sl by (simp add: slots_follow_trace_def update_pivot_trace) (simp add: update_pivot_def Let_def)
  ultimately show ?thesis by (simp add: identity_invariant_def)
qed

lemma fold_factor_pivot_unit:
  assumes "identity_invariant n s" and "\<forall>p\<in>set ps. p < n \<and> p \<le> re" and "ce \<le> n" and "keeps_small rnd"
  shows "identity_invariant n (fold (factor_pivot rnd n re ce) ps s)"
  using assms by (induction ps arbitrary: s) (simp_all add: factor_pivot_unit)

lemma fold_update_pivot_unit:
  assumes "identity_invariant n s" and "\<forall>p\<in>set ps. p < n" and "ce \<le> n" and "keeps_small rnd"
  shows "identity_invariant n (fold (update_pivot rnd n cs ce) ps s)"
  using assms by (induction ps arbitrary: s) (simp_all add: update_pivot_unit)

lemma run_kernel_unit:
  assumes "identity_invariant n s" and "row_end t \<le> n" and "col_end t \<le> n" and "keeps_small rnd"
  shows "identity_invariant n (run_kernel rnd m n t s)"
  using assms
  by (auto simp: run_kernel_def complete_task1_def complete_task2_def Let_def
      intro!: fold_factor_pivot_unit fold_update_pivot_unit)

lemma run_tasks_unit:
  assumes "identity_invariant n s" and "\<forall>t\<in>set ts. row_end t \<le> n \<and> col_end t \<le> n" and "keeps_small rnd"
  shows "identity_invariant n (run_tasks rnd m n ts s)"
  using assms unfolding run_tasks_def
  by (induction ts arbitrary: s) (simp_all add: run_kernel_unit)

lemma identity_state_invariant: "identity_invariant n (identity_state n)"
proof -
  have lt: "r * n + r < n * n" if "r < n" for r
  proof -
    have "r * n + r < r * n + n" using that by simp
    also have "\<dots> = Suc r * n" by simp
    also have "\<dots> \<le> n * n" using that by (intro mult_le_mono1) simp
    finally show ?thesis .
  qed
  have "unit_diagonal n (identity_matrix n)"
    unfolding unit_diagonal_def identity_matrix_def using lt by auto
  moreover have "slots_follow_trace n (identity_state n)"
    by (simp add: slots_follow_trace_def identity_state_def)
  ultimately show ?thesis
    by (simp add: identity_invariant_def identity_state_def)
qed


lemma spec_task_2_2_4:
  "spec_task 2 2 4 0 0 = \<lparr>type = 1, chunk_idx_i = 0, chunk_idx_j = 0, row_start = 0, row_end = 2,
      col_start = 0, col_end = 2, priority = 5, enq_nxt_t1 = False\<rparr>"
  "spec_task 2 2 4 1 0 = \<lparr>type = 2, chunk_idx_i = 1, chunk_idx_j = 0, row_start = 2, row_end = 4,
      col_start = 0, col_end = 2, priority = 2, enq_nxt_t1 = False\<rparr>"
  "spec_task 2 2 4 0 1 = \<lparr>type = 2, chunk_idx_i = 0, chunk_idx_j = 1, row_start = 0, row_end = 2,
      col_start = 2, col_end = 4, priority = 4, enq_nxt_t1 = False\<rparr>"
  "spec_task 2 2 4 1 1 = \<lparr>type = 1, chunk_idx_i = 1, chunk_idx_j = 1, row_start = 2, row_end = 4,
      col_start = 2, col_end = 4, priority = 3, enq_nxt_t1 = False\<rparr>"
  by (simp_all add: spec_task_def Let_def)

lemmas kernel_unfold = run_tasks_def run_kernel_def complete_task1_def complete_task2_def
  factor_pivot_def update_pivot_def row_scan_def scaled_norm_def apply_reflector_def
  dot_tail_def axpy_tail_def emit_def identity_state_def identity_matrix_def exact_def Let_def

lemma replicate_4: "replicate 4 x = [x, x, x, x]"
  by (simp add: numeral_eq_Suc)

lemma keeps_small_exact: "keeps_small exact"
  by (simp add: keeps_small_def exact_def)

text \<open>
  Claim C7, as the specification states it, fails: on the 4 x 4 identity with
  \<open>ALPHA = BETA = 2\<close> the seed task \<open>(0, 0)\<close>, a panel factor over rows 0 and 1, stores
  \<open>up = 2\<close> for both rows (the pivot \<open>1\<close> is replaced by \<open>-1\<close>, so
  \<open>up = 1 - (-1)\<close> and \<open>b = up * (-1) < 0\<close>); after the four tasks of the grid every
  slot of \<^verbatim>\<open>global_up_array\<close> holds 2.
\<close>

theorem identity_reflectors_counterexample:
  "global_up_array (run_tasks exact 4 4 [spec_task 2 2 4 0 0] (identity_state 4)) = [2, 2, 0, 0]
   \<and> global_up_array (run_tasks exact 4 4
        [spec_task 2 2 4 0 0, spec_task 2 2 4 1 0, spec_task 2 2 4 0 1, spec_task 2 2 4 1 1]
        (identity_state 4)) = [2, 2, 2, 2]"
  by (simp add: spec_task_2_2_4 kernel_unfold upt_rec replicate_4)

text \<open>
  Claim C7, amended. Whatever tasks are run on the 4 x 4 identity, in whatever order,
  as long as their blocks lie inside the matrix: every diagonal entry keeps absolute
  value 1, every off-diagonal entry stays exactly 0, and the reflector slots of a row are
  \<open>up = 0\<close>, \<open>b = 0\<close> as long as no panel factor has visited the row and
  \<open>up = 2\<close> or \<open>-2\<close>, \<open>b = -1/2\<close> once one has. The rounding only has to keep
  \<open>0, 1, -1, 2, -2, -1/2\<close>, which binary64 represents exactly.
\<close>

theorem identity_factorization:
  assumes "keeps_small rnd" and "\<forall>t\<in>set ts. row_end t \<le> 4 \<and> col_end t \<le> 4"
  shows "(\<forall>r<4. \<bar>mat (run_tasks rnd 4 4 ts (identity_state 4)) (r * 4 + r)\<bar> = 1)
     \<and> (\<forall>r<4. \<forall>c<4. r \<noteq> c \<longrightarrow> mat (run_tasks rnd 4 4 ts (identity_state 4)) (r * 4 + c) = 0)
     \<and> (\<forall>r<4. if r \<in> set (pivots_visited (trace (run_tasks rnd 4 4 ts (identity_state 4))))
                then \<bar>global_up_array (run_tasks rnd 4 4 ts (identity_state 4)) ! r\<bar> = 2
                   \<and> global_b_array (run_tasks rnd 4 4 ts (identity_state 4)) ! r = - (1 / 2)
                else global_up_array (run_tasks rnd 4 4 ts (identity_state 4)) ! r = 0
                   \<and> global_b_array (run_tasks rnd 4 4 ts (identity_state 4)) ! r = 0)"
proof -
  have "identity_invariant 4 (run_tasks rnd 4 4 ts (identity_state 4))"
    by (intro run_tasks_unit identity_state_invariant assms)
  then show ?thesis
    unfolding identity_invariant_def unit_diagonal_def slots_follow_trace_def by blast
qed

theorem identity_factorization_witness:
  "keeps_small exact
   \<and> row_end (spec_task 2 2 4 0 0) \<le> 4 \<and> col_end (spec_task 2 2 4 0 0) \<le> 4
   \<and> row_end (spec_task 2 2 4 1 1) \<le> 4 \<and> col_end (spec_task 2 2 4 1 1) \<le> 4
   \<and> \<bar>mat (run_tasks exact 4 4 [spec_task 2 2 4 0 0, spec_task 2 2 4 1 1] (identity_state 4)) (0 * 4 + 0)\<bar> = 1
   \<and> mat (run_tasks exact 4 4 [spec_task 2 2 4 0 0, spec_task 2 2 4 1 1] (identity_state 4)) (0 * 4 + 0) = - 1
   \<and> mat (run_tasks exact 4 4 [spec_task 2 2 4 0 0, spec_task 2 2 4 1 1] (identity_state 4)) (1 * 4 + 0) = 0
   \<and> pivots_visited (trace (run_tasks exact 4 4 [spec_task 2 2 4 0 0, spec_task 2 2 4 1 1] (identity_state 4)))
       = [0, 1, 2, 3]
   \<and> \<bar>global_up_array (run_tasks exact 4 4 [spec_task 2 2 4 0 0, spec_task 2 2 4 1 1] (identity_state 4)) ! 3\<bar> = 2
   \<and> global_b_array (run_tasks exact 4 4 [spec_task 2 2 4 0 0, spec_task 2 2 4 1 1] (identity_state 4)) ! 3 = - (1 / 2)"
proof -
  let ?ts = "[spec_task 2 2 4 0 0, spec_task 2 2 4 1 1]"
  let ?s = "run_tasks exact 4 4 ?ts (identity_state 4)"
  have h: "\<forall>t\<in>set ?ts. row_end t \<le> 4 \<and> col_end t \<le> 4"
    by (simp add: spec_task_2_2_4)
  note r = identity_factorization [OF keeps_small_exact h]
  have pv: "pivots_visited (trace ?s) = [0, 1, 2, 3]"
    by (simp add: run_tasks_def run_kernel_def spec_task_2_2_4 factor_pivot_pivots
        complete_task1_def identity_state_def upt_rec)
  note a1 = r [THEN conjunct1, rule_format]
  note a2 = r [THEN conjunct2, THEN conjunct1, rule_format]
  note a3 = r [THEN conjunct2, THEN conjunct2, rule_format]
  have d: "\<bar>mat ?s (0 * 4 + 0)\<bar> = 1" by (rule a1) simp
  have o: "mat ?s (1 * 4 + 0) = 0" by (rule a2) simp_all
  have u: "\<bar>global_up_array ?s ! 3\<bar> = 2 \<and> global_b_array ?s ! 3 = - (1 / 2)"
    using a3 [of 3] pv by simp
  have v: "mat ?s (0 * 4 + 0) = - 1"
    by (simp add: spec_task_2_2_4 kernel_unfold upt_rec)
  show ?thesis
    using keeps_small_exact h pv d o u v by simp
qed

section \<open>Facts about the scheduler\<close>

lemma enqueue_fold:
  "fold (\<lambda>k s.
             let next_task = getTask k j
             in if j = 0 \<or> getDependency (dependency_table s) k (j - 1)
                then s\<lparr>taskPQ := taskPQ s @ [next_task]\<rparr>
                else s\<lparr>wait_queue := wait_queue s @ [next_task]\<rparr>) ks s =
   s\<lparr>taskPQ := taskPQ s @ map (\<lambda>k. getTask k j)
                     (filter (\<lambda>k. j = 0 \<or> dependency_table s (k, j - 1)) ks),
     wait_queue := wait_queue s @ map (\<lambda>k. getTask k j)
                     (filter (\<lambda>k. \<not> (j = 0 \<or> dependency_table s (k, j - 1))) ks)\<rparr>"
  by (induction ks arbitrary: s) (simp_all add: Let_def getDependency_def)

lemma enqueue_successors_eq:
  "enqueue_successors getTask args i j s =
   s\<lparr>taskPQ := taskPQ s @ map (\<lambda>k. getTask k j)
                     (filter (\<lambda>k. j = 0 \<or> dependency_table s (k, j - 1))
                        [i + 1 .. total_task_rows args - 1]),
     wait_queue := wait_queue s @ map (\<lambda>k. getTask k j)
                     (filter (\<lambda>k. \<not> (j = 0 \<or> dependency_table s (k, j - 1)))
                        [i + 1 .. total_task_rows args - 1])\<rparr>"
  unfolding enqueue_successors_def by (rule enqueue_fold)

text \<open>
  Claim C3. When a worker completes a type-1 task at \<open>(i, j)\<close>, the kernel has run, the
  flag \<open>(i, j)\<close> is set, and with that table the loop over \<open>k = i + 1, ..., TR - 1\<close>
  appends task \<open>(k, j)\<close> to the ready queue when \<open>j = 0\<close> or the flag \<open>(k, j - 1)\<close>
  is set and to the wait queue otherwise, in the order of \<open>k\<close>; nothing else is
  enqueued, nothing is removed, and the worker moves on to the wait queue.
\<close>

theorem type1_completion_enqueues:
  assumes "type t = 1"
  shows "complete_task rnd R getTask args w t s =
     Inr \<lparr>kernel = complete_task1 rnd (kernel s) (arg_m args) (arg_n args)
                     (row_start t) (row_end t) (col_start t) (col_end t),
          dependency_table = (dependency_table s)((chunk_idx_i t, chunk_idx_j t) := True),
          taskPQ = taskPQ s @ map (\<lambda>k. getTask k (chunk_idx_j t))
                     (filter (\<lambda>k. chunk_idx_j t = 0 \<or>
                                   ((dependency_table s)((chunk_idx_i t, chunk_idx_j t) := True))
                                     (k, chunk_idx_j t - 1))
                        [chunk_idx_i t + 1 .. total_task_rows args - 1]),
          wait_queue = wait_queue s @ map (\<lambda>k. getTask k (chunk_idx_j t))
                     (filter (\<lambda>k. \<not> (chunk_idx_j t = 0 \<or>
                                   ((dependency_table s)((chunk_idx_i t, chunk_idx_j t) := True))
                                     (k, chunk_idx_j t - 1)))
                        [chunk_idx_i t + 1 .. total_task_rows args - 1]),
          pcs = (pcs s)(w := AtWait)\<rparr>"
  using assms by (simp add: complete_task_def enqueue_successors_eq Let_def setDependency_def)


lemma complete_task_pcs:
  assumes "complete_task rnd R getTask args w t s = Inr s'"
  shows "pcs s' = (pcs s)(w := AtWait)"
  using assms
  by (auto simp: complete_task_def enqueue_successors_eq Let_def split: if_splits)

lemma complete_task_dependency:
  assumes "complete_task rnd R getTask args w t s = Inr s'"
  shows "dependency_table s' = dependency_table s \<or>
         dependency_table s' = (dependency_table s)((chunk_idx_i t, chunk_idx_j t) := True)"
  using assms
  by (auto simp: complete_task_def enqueue_successors_eq Let_def setDependency_def split: if_splits)

lemma worker_step_dependency:
  assumes "worker_step rnd R getTask args w s = Inr s'" and "dependency_table s c"
  shows "dependency_table s' c"
proof (cases "pcs s w")
  case (Running t)
  then have "complete_task rnd R getTask args w t s = Inr s'"
    using assms(1) by (simp add: worker_step_def)
  from complete_task_dependency [OF this] show ?thesis
    using assms(2) by auto
qed (use assms in \<open>auto simp: worker_step_def pop_ready_def recheck_wait_def check_termination_def
        Let_def split: list.splits if_splits\<close>)

lemma worker_step_exit:
  assumes "worker_step rnd R getTask args w s = Inr s'"
  shows "(pcs s' w = Exited) =
         (pcs s w = Exited \<or>
          pcs s w = AtCheck \<and>
          dependency_table s (total_task_rows args - 1, R * (total_task_rows args - 1)))"
proof (cases "pcs s w")
  case (Running t)
  then have "complete_task rnd R getTask args w t s = Inr s'"
    using assms(1) by (simp add: worker_step_def)
  from complete_task_pcs [OF this] show ?thesis
    using Running by simp
qed (use assms in \<open>auto simp: worker_step_def pop_ready_def recheck_wait_def check_termination_def
        termination_flag_def getDependency_def Let_def split: list.splits if_splits\<close>)

lemma worker_step_others:
  assumes "worker_step rnd R getTask args w s = Inr s'" and "v \<noteq> w"
  shows "pcs s' v = pcs s v"
proof (cases "pcs s w")
  case (Running t)
  then have "complete_task rnd R getTask args w t s = Inr s'"
    using assms(1) by (simp add: worker_step_def)
  from complete_task_pcs [OF this] show ?thesis
    using assms(2) by simp
qed (use assms in \<open>auto simp: worker_step_def pop_ready_def recheck_wait_def check_termination_def
        Let_def split: list.splits if_splits\<close>)

lemma reachable_dependency:
  assumes "reachable rnd R getTask args s0 s" and "dependency_table s0 c"
  shows "dependency_table s c"
  using assms by (induction rule: reachable.induct) (auto intro: worker_step_dependency)

lemma run_schedule_reachable:
  assumes "run_schedule rnd R getTask args ws s = Inr s'" and "reachable rnd R getTask args s0 s"
    and "\<forall>w\<in>set ws. w < NUM_THREADS"
  shows "reachable rnd R getTask args s0 s'"
  using assms
proof (induction ws arbitrary: s)
  case Nil
  then show ?case by simp
next
  case (Cons w ws)
  then show ?case
    by (auto split: sum.splits intro: reachable.step)
qed


lemma pop_ready_columns:
  assumes "columns_in_order s"
  shows "columns_in_order (pop_ready w s)"
  using assms by (auto simp: columns_in_order_def pop_ready_def split: list.splits)

lemma recheck_wait_columns:
  assumes "columns_in_order s"
  shows "columns_in_order (recheck_wait w s)"
  using assms
  by (auto simp: columns_in_order_def recheck_wait_def Let_def split: list.splits)

lemma check_termination_columns:
  assumes "columns_in_order s"
  shows "columns_in_order (check_termination R args w s)"
  using assms by (auto simp: columns_in_order_def check_termination_def)

lemma complete_task_columns:
  assumes inv: "columns_in_order s" and run: "pcs s w = Running t"
    and tab: "\<forall>i j. chunk_idx_j (getTask i j) = j"
    and res: "complete_task rnd R getTask args w t s = Inr s'"
  shows "columns_in_order s'"
proof -
  have j: "0 \<le> chunk_idx_j t"
    using inv run by (auto simp: columns_in_order_def)
  show ?thesis
    using inv res tab j
    by (auto simp: columns_in_order_def complete_task_def enqueue_successors_eq Let_def
        split: if_splits)
qed

lemma worker_step_columns:
  assumes "columns_in_order s" and "\<forall>i j. chunk_idx_j (getTask i j) = j"
    and "worker_step rnd R getTask args w s = Inr s'"
  shows "columns_in_order s'"
proof (cases "pcs s w")
  case AtReady
  then show ?thesis using assms by (auto simp: worker_step_def pop_ready_columns)
next
  case (Running t)
  then show ?thesis
    using assms complete_task_columns [of s w t getTask rnd R args s']
    by (simp add: worker_step_def)
next
  case AtWait
  then show ?thesis using assms by (auto simp: worker_step_def recheck_wait_columns)
next
  case AtCheck
  then show ?thesis using assms by (auto simp: worker_step_def check_termination_columns)
next
  case Exited
  then show ?thesis using assms by (auto simp: worker_step_def)
qed

lemma reachable_columns:
  assumes "reachable rnd R getTask args s0 s" and "columns_in_order s0"
    and "\<forall>i j. chunk_idx_j (getTask i j) = j"
  shows "columns_in_order s"
  using assms by (induction rule: reachable.induct) (auto intro: worker_step_columns)

lemma dagqrf_start_columns:
  assumes "dagqrf_start ALPHA BETA getTask a mat_rows mat_cols = Inr (args, s0)"
    and "\<forall>i j. chunk_idx_j (getTask i j) = j"
  shows "columns_in_order s0"
  using assms by (auto simp: dagqrf_start_def columns_in_order_def split: if_splits)

text \<open>
  Claim C9. For a task table whose descriptor at \<open>(i, j)\<close> carries the column index
  \<open>j\<close>, in every state the workers reach from the state \<^verbatim>\<open>dagqrf\<close> sets up, under
  every interleaving, each task in the wait queue has \<open>chunk_idx_j \<ge> 1\<close>; so the cell
  \<open>(i, j - 1)\<close> examined at line 227 has a column that is not negative.
\<close>

theorem wait_queue_columns_positive:
  assumes "\<forall>i j. chunk_idx_j (getTask i j) = j"
    and "dagqrf_start ALPHA BETA getTask a mat_rows mat_cols = Inr (args, s0)"
    and "reachable rnd (BETA_DIV_ALPHA ALPHA BETA) getTask args s0 s"
  shows "\<forall>t\<in>set (wait_queue s). 1 \<le> chunk_idx_j t \<and> 0 \<le> snd (recheck_cell t)"
proof -
  have "columns_in_order s"
    using reachable_columns [OF assms(3) dagqrf_start_columns [OF assms(2,1)] assms(1)] .
  then show ?thesis
    by (auto simp: columns_in_order_def recheck_cell_def)
qed

section \<open>Runs of the scheduler on concrete inputs\<close>

lemmas sched_unfold = worker_step_def pop_ready_def complete_task_def enqueue_successors_def
  recheck_wait_def recheck_cell_def check_termination_def termination_flag_def
  setDependency_def getDependency_def Let_def

lemma unit_block_simps:
  "type (unit_block_task i j) = (if i = j then 1 else 2)"
  "chunk_idx_i (unit_block_task i j) = i"
  "chunk_idx_j (unit_block_task i j) = j"
  "enq_nxt_t1 (unit_block_task i j) = (i = j + 1)"
  by (simp_all add: unit_block_task_def)

lemma dagqrf_start_unit_3:
  "dagqrf_start 1 1 unit_block_task (identity_matrix 3) 3 3 =
     Inr (\<lparr>total_task_rows = 3, total_task_cols = 3, arg_m = 3, arg_n = 3\<rparr>,
          \<lparr>kernel = identity_state 3, dependency_table = (\<lambda>c. False),
           taskPQ = [unit_block_task 0 0], wait_queue = [], pcs = (\<lambda>w. AtReady)\<rparr>)"
  by (simp add: dagqrf_start_def identity_state_def)

text \<open>
  Two workers on a 3 x 3 matrix: worker 0 runs \<open>(0, 0)\<close> and \<open>(1, 0)\<close>, worker 1 pops
  \<open>(2, 0)\<close> and has not completed it when worker 0 completes \<open>(1, 1)\<close>; the successor
  \<open>(2, 1)\<close> goes to the wait queue.
\<close>

lemma unit_3_wait:
  "\<exists>s. run_schedule exact (BETA_DIV_ALPHA 1 1) unit_block_task
          \<lparr>total_task_rows = 3, total_task_cols = 3, arg_m = 3, arg_n = 3\<rparr>
          [0, 0, 0, 0, 0, 1, 0, 0, 0, 0, 0]
          \<lparr>kernel = identity_state 3, dependency_table = (\<lambda>c. False),
           taskPQ = [unit_block_task 0 0], wait_queue = [], pcs = (\<lambda>w. AtReady)\<rparr> = Inr s
       \<and> wait_queue s = [unit_block_task 2 1]"
  by (simp add: sched_unfold BETA_DIV_ALPHA_def unit_block_simps upto.simps)

theorem type1_completion_enqueues_witness:
  "type (unit_block_task 1 1) = 1
   \<and> (\<exists>s'. complete_task exact 1 unit_block_task
              \<lparr>total_task_rows = 3, total_task_cols = 3, arg_m = 3, arg_n = 3\<rparr> 0
              (unit_block_task 1 1)
              \<lparr>kernel = identity_state 3, dependency_table = (\<lambda>c. c = (0, 0) \<or> c = (1, 0)),
               taskPQ = [unit_block_task 2 0], wait_queue = [],
               pcs = (\<lambda>w. Running (unit_block_task 1 1))\<rparr> = Inr s'
          \<and> taskPQ s' = [unit_block_task 2 0]
          \<and> wait_queue s' = [unit_block_task 2 1]
          \<and> dependency_table s' (1, 1))
   \<and> type (unit_block_task 0 0) = 1
   \<and> (\<exists>s'. complete_task exact 1 unit_block_task
              \<lparr>total_task_rows = 3, total_task_cols = 3, arg_m = 3, arg_n = 3\<rparr> 0
              (unit_block_task 0 0)
              \<lparr>kernel = identity_state 3, dependency_table = (\<lambda>c. False),
               taskPQ = [], wait_queue = [],
               pcs = (\<lambda>w. Running (unit_block_task 0 0))\<rparr> = Inr s'
          \<and> taskPQ s' = [unit_block_task 1 0, unit_block_task 2 0]
          \<and> wait_queue s' = []
          \<and> dependency_table s' (0, 0))"
proof -
  have t1: "type (unit_block_task 1 1) = 1" and t0: "type (unit_block_task 0 0) = 1"
    by (simp_all add: unit_block_simps)
  show ?thesis
    using t1 t0
    by (simp add: type1_completion_enqueues [OF t1] type1_completion_enqueues [OF t0]
        unit_block_simps upto.simps)
qed

theorem wait_queue_columns_positive_witness:
  "(\<forall>i j. chunk_idx_j (unit_block_task i j) = j)
   \<and> (\<exists>args s0 s.
         dagqrf_start 1 1 unit_block_task (identity_matrix 3) 3 3 = Inr (args, s0)
       \<and> reachable exact (BETA_DIV_ALPHA 1 1) unit_block_task args s0 s
       \<and> wait_queue s = [unit_block_task 2 1]
       \<and> 1 \<le> chunk_idx_j (unit_block_task 2 1)
       \<and> 0 \<le> snd (recheck_cell (unit_block_task 2 1)))"
proof -
  have tab: "\<forall>i j. chunk_idx_j (unit_block_task i j) = j"
    by (simp add: unit_block_simps)
  obtain s where
    run: "run_schedule exact (BETA_DIV_ALPHA 1 1) unit_block_task
          \<lparr>total_task_rows = 3, total_task_cols = 3, arg_m = 3, arg_n = 3\<rparr>
          [0, 0, 0, 0, 0, 1, 0, 0, 0, 0, 0]
          \<lparr>kernel = identity_state 3, dependency_table = (\<lambda>c. False),
           taskPQ = [unit_block_task 0 0], wait_queue = [], pcs = (\<lambda>w. AtReady)\<rparr> = Inr s"
    and wq: "wait_queue s = [unit_block_task 2 1]"
    using unit_3_wait by blast
  have reach: "reachable exact (BETA_DIV_ALPHA 1 1) unit_block_task
          \<lparr>total_task_rows = 3, total_task_cols = 3, arg_m = 3, arg_n = 3\<rparr>
          \<lparr>kernel = identity_state 3, dependency_table = (\<lambda>c. False),
           taskPQ = [unit_block_task 0 0], wait_queue = [], pcs = (\<lambda>w. AtReady)\<rparr> s"
    by (rule run_schedule_reachable [OF run reachable.start]) (simp add: NUM_THREADS_def)
  have "1 \<le> chunk_idx_j (unit_block_task 2 1) \<and> 0 \<le> snd (recheck_cell (unit_block_task 2 1))"
    using wait_queue_columns_positive [OF tab dagqrf_start_unit_3 reach] wq by simp
  then show ?thesis
    using tab dagqrf_start_unit_3 reach wq by blast
qed

text \<open>
  Claim C2. A worker leaves the loop in a step exactly when it stands at the termination
  check and the dependency flag \<open>(TR - 1, R * (TR - 1))\<close> is set in the state it
  reads; that flag is all the check reads. No step of any worker clears a flag, so from a
  state \<open>s0\<close> in which the flag is set it is set in every later state, and every worker
  that then takes the check leaves.
\<close>

theorem worker_exits_on_final_flag:
  assumes "reachable rnd R getTask args s0 s" and "worker_step rnd R getTask args w s = Inr s'"
  shows "((pcs s' w = Exited) =
            (pcs s w = Exited \<or>
             pcs s w = AtCheck \<and>
             dependency_table s (total_task_rows args - 1, R * (total_task_rows args - 1))))
     \<and> termination_flag R args (dependency_table s) =
           dependency_table s (total_task_rows args - 1, R * (total_task_rows args - 1))
     \<and> (dependency_table s0 (total_task_rows args - 1, R * (total_task_rows args - 1)) \<longrightarrow>
           dependency_table s (total_task_rows args - 1, R * (total_task_rows args - 1))
         \<and> dependency_table s' (total_task_rows args - 1, R * (total_task_rows args - 1))
         \<and> (pcs s w = AtCheck \<longrightarrow> pcs s' w = Exited))"
proof (intro conjI impI)
  show "(pcs s' w = Exited) =
            (pcs s w = Exited \<or>
             pcs s w = AtCheck \<and>
             dependency_table s (total_task_rows args - 1, R * (total_task_rows args - 1)))"
    by (rule worker_step_exit [OF assms(2)])
  show "termination_flag R args (dependency_table s) =
           dependency_table s (total_task_rows args - 1, R * (total_task_rows args - 1))"
    by (simp add: termination_flag_def getDependency_def)
next
  assume f0: "dependency_table s0 (total_task_rows args - 1, R * (total_task_rows args - 1))"
  show f: "dependency_table s (total_task_rows args - 1, R * (total_task_rows args - 1))"
    by (rule reachable_dependency [OF assms(1) f0])
  show "dependency_table s' (total_task_rows args - 1, R * (total_task_rows args - 1))"
    by (rule worker_step_dependency [OF assms(2) f])
  assume "pcs s w = AtCheck"
  then show "pcs s' w = Exited"
    using worker_step_exit [OF assms(2)] f by simp
qed

lemma dagqrf_start_single_panel:
  "dagqrf_start 2 2 (spec_task 2 2 2) (identity_matrix 2) 2 2 =
     Inr (\<lparr>total_task_rows = 1, total_task_cols = 1, arg_m = 2, arg_n = 2\<rparr>,
          \<lparr>kernel = identity_state 2, dependency_table = (\<lambda>c. False),
           taskPQ = [spec_task 2 2 2 0 0], wait_queue = [], pcs = (\<lambda>w. AtReady)\<rparr>)"
  by (simp add: dagqrf_start_def identity_state_def)

lemma single_panel_run:
  "\<exists>s0 s s'.
      run_schedule exact 1 (spec_task 2 2 2)
        \<lparr>total_task_rows = 1, total_task_cols = 1, arg_m = 2, arg_n = 2\<rparr> [0, 0]
        \<lparr>kernel = identity_state 2, dependency_table = (\<lambda>c. False),
         taskPQ = [spec_task 2 2 2 0 0], wait_queue = [], pcs = (\<lambda>w. AtReady)\<rparr> = Inr s0
    \<and> run_schedule exact 1 (spec_task 2 2 2)
        \<lparr>total_task_rows = 1, total_task_cols = 1, arg_m = 2, arg_n = 2\<rparr> [1, 1] s0 = Inr s
    \<and> worker_step exact 1 (spec_task 2 2 2)
        \<lparr>total_task_rows = 1, total_task_cols = 1, arg_m = 2, arg_n = 2\<rparr> 1 s = Inr s'
    \<and> dependency_table s0 (0, 0) \<and> pcs s 1 = AtCheck"
  by (simp add: sched_unfold spec_task_def upto.simps)

theorem worker_exits_on_final_flag_witness:
  "\<exists>s0 s s'.
      reachable exact 1 (spec_task 2 2 2)
        \<lparr>total_task_rows = 1, total_task_cols = 1, arg_m = 2, arg_n = 2\<rparr> s0 s
    \<and> worker_step exact 1 (spec_task 2 2 2)
        \<lparr>total_task_rows = 1, total_task_cols = 1, arg_m = 2, arg_n = 2\<rparr> 1 s = Inr s'
    \<and> dependency_table s0 (0, 0) \<and> pcs s 1 = AtCheck
    \<and> dependency_table s (0, 0) \<and> pcs s' 1 = Exited"
proof -
  let ?args = "\<lparr>total_task_rows = 1, total_task_cols = 1, arg_m = 2, arg_n = 2\<rparr>"
  obtain s0 s s' where
    r1: "run_schedule exact 1 (spec_task 2 2 2) ?args [1, 1] s0 = Inr s"
    and st: "worker_step exact 1 (spec_task 2 2 2) ?args 1 s = Inr s'"
    and f0: "dependency_table s0 (0, 0)" and pc: "pcs s 1 = AtCheck"
    using single_panel_run by blast
  have reach: "reachable exact 1 (spec_task 2 2 2) ?args s0 s"
    by (rule run_schedule_reachable [OF r1 reachable.start]) (simp add: NUM_THREADS_def)
  have "dependency_table s (0, 0) \<and> pcs s' 1 = Exited"
    using worker_exits_on_final_flag [OF reach st] f0 pc by simp
  then show ?thesis
    using reach st f0 pc by blast
qed

section \<open>The driver performs no validation\<close>

lemma spec_task_2_3_4_seed:
  "spec_task 2 3 4 0 0 = \<lparr>type = 1, chunk_idx_i = 0, chunk_idx_j = 0, row_start = 0, row_end = 3,
      col_start = 0, col_end = 2, priority = 5, enq_nxt_t1 = False\<rparr>"
  by (simp add: spec_task_def Let_def)

lemma dagqrf_start_2_3_4:
  "dagqrf_start 2 3 (spec_task 2 3 4) (identity_matrix 4) 4 4 =
     Inr (\<lparr>total_task_rows = 2, total_task_cols = 2, arg_m = 4, arg_n = 4\<rparr>,
          \<lparr>kernel = identity_state 4, dependency_table = (\<lambda>c. False),
           taskPQ = [spec_task 2 3 4 0 0], wait_queue = [], pcs = (\<lambda>w. AtReady)\<rparr>)"
  by (simp add: dagqrf_start_def identity_state_def)

lemma run_2_3_4:
  "\<exists>s. run_schedule exact (BETA_DIV_ALPHA 2 3) (spec_task 2 3 4)
          \<lparr>total_task_rows = 2, total_task_cols = 2, arg_m = 4, arg_n = 4\<rparr> [0, 0]
          \<lparr>kernel = identity_state 4, dependency_table = (\<lambda>c. False),
           taskPQ = [spec_task 2 3 4 0 0], wait_queue = [], pcs = (\<lambda>w. AtReady)\<rparr> = Inr s
       \<and> mat (kernel s) 0 = - 1 \<and> global_up_array (kernel s) = [2, 2, 2, 0]"
  by (simp add: sched_unfold spec_task_2_3_4_seed kernel_unfold upt_rec replicate_4 upto.simps)

text \<open>
  Claim C6, as the specification states it, fails: \<^verbatim>\<open>dagqrf\<close> contains no check.
  With \<open>ALPHA = 2\<close> and \<open>BETA = 3\<close>, so that \<open>BETA % ALPHA = 1\<close>, the call on a 4 x 4
  matrix is not rejected: the driver seeds task \<open>(0, 0)\<close>, and the first worker to run
  overwrites \<open>M[0,0]\<close>. A matrix with \<open>N = 0\<close> columns is accepted in the same way.
\<close>

theorem driver_validation_counterexample:
  "(3::int) mod 2 \<noteq> 0
   \<and> (\<exists>args s0 s.
         dagqrf_start 2 3 (spec_task 2 3 4) (identity_matrix 4) 4 4 = Inr (args, s0)
       \<and> taskPQ s0 = [spec_task 2 3 4 0 0]
       \<and> mat (kernel s0) 0 = 1
       \<and> run_schedule exact (BETA_DIV_ALPHA 2 3) (spec_task 2 3 4) args [0, 0] s0 = Inr s
       \<and> mat (kernel s) 0 = - 1)
   \<and> (\<exists>args s0.
         dagqrf_start 2 2 (spec_task 2 2 4) (identity_matrix 4) 4 0 = Inr (args, s0)
       \<and> arg_n args = 0
       \<and> taskPQ s0 = [spec_task 2 2 4 0 0])"
proof -
  obtain s where
    r: "run_schedule exact (BETA_DIV_ALPHA 2 3) (spec_task 2 3 4)
          \<lparr>total_task_rows = 2, total_task_cols = 2, arg_m = 4, arg_n = 4\<rparr> [0, 0]
          \<lparr>kernel = identity_state 4, dependency_table = (\<lambda>c. False),
           taskPQ = [spec_task 2 3 4 0 0], wait_queue = [], pcs = (\<lambda>w. AtReady)\<rparr> = Inr s"
    and m: "mat (kernel s) 0 = - 1"
    using run_2_3_4 by blast
  have i: "mat (kernel \<lparr>kernel = identity_state 4, dependency_table = (\<lambda>c. False),
           taskPQ = [spec_task 2 3 4 0 0], wait_queue = [], pcs = (\<lambda>w. AtReady)\<rparr>) 0 = 1"
    and q: "taskPQ \<lparr>kernel = identity_state 4, dependency_table = (\<lambda>c. False),
           taskPQ = [spec_task 2 3 4 0 0], wait_queue = [], pcs = (\<lambda>w. AtReady)\<rparr>
           = [spec_task 2 3 4 0 0]"
    by (simp_all add: identity_state_def identity_matrix_def)
  have first: "\<exists>args s0 s.
         dagqrf_start 2 3 (spec_task 2 3 4) (identity_matrix 4) 4 4 = Inr (args, s0)
       \<and> taskPQ s0 = [spec_task 2 3 4 0 0]
       \<and> mat (kernel s0) 0 = 1
       \<and> run_schedule exact (BETA_DIV_ALPHA 2 3) (spec_task 2 3 4) args [0, 0] s0 = Inr s
       \<and> mat (kernel s) 0 = - 1"
    using dagqrf_start_2_3_4 q i r m by blast
  have second: "\<exists>args s0.
         dagqrf_start 2 2 (spec_task 2 2 4) (identity_matrix 4) 4 0 = Inr (args, s0)
       \<and> arg_n args = 0 \<and> taskPQ s0 = [spec_task 2 2 4 0 0]"
    by (simp add: dagqrf_start_def)
  have "(3::int) mod 2 \<noteq> 0" by simp
  then show ?thesis using first second by blast
qed

text \<open>
  Claim C6, amended. The driver validates nothing at entry: for all positive \<open>ALPHA\<close>,
  \<open>BETA\<close> and \<open>M\<close>, whether or not \<open>ALPHA\<close> divides \<open>BETA\<close> and for every
  \<open>N \<ge> 0\<close>, zero included,
  it computes \<open>TR\<close> and \<open>TC\<close> as the rounded-up quotients of \<open>M\<close> by \<open>BETA\<close> and
  by \<open>ALPHA\<close>, zeroes the reflector arrays of length \<open>M\<close>, clears the dependency table,
  seeds task \<open>(0, 0)\<close> and starts the workers on the matrix as given. The number of
  workers is the constant \<^verbatim>\<open>NUM_THREADS\<close> and is not checked either.
\<close>

theorem dagqrf_proceeds_without_validation:
  assumes "0 < ALPHA" and "0 < BETA" and "0 < mat_rows" and "0 \<le> mat_cols"
  shows "dagqrf_start ALPHA BETA getTask a mat_rows mat_cols =
     Inr (\<lparr>total_task_rows = \<lceil>real_of_int mat_rows / real_of_int BETA\<rceil>,
           total_task_cols = \<lceil>real_of_int mat_rows / real_of_int ALPHA\<rceil>,
           arg_m = nat mat_rows, arg_n = nat mat_cols\<rparr>,
          \<lparr>kernel = \<lparr>mat = a, global_up_array = replicate (nat mat_rows) 0,
                      global_b_array = replicate (nat mat_rows) 0, trace = []\<rparr>,
           dependency_table = (\<lambda>c. False),
           taskPQ = [getTask 0 0],
           wait_queue = [],
           pcs = (\<lambda>w. AtReady)\<rparr>)"
  using assms by (simp add: dagqrf_start_def)

theorem dagqrf_proceeds_without_validation_witness:
  "(0::int) < 2 \<and> (0::int) < 3 \<and> (0::int) < 4 \<and> (0::int) \<le> 0 \<and> (3::int) mod 2 \<noteq> 0
   \<and> dagqrf_start 2 3 (spec_task 2 3 4) (identity_matrix 4) 4 0 =
     Inr (\<lparr>total_task_rows = 2, total_task_cols = 2, arg_m = 4, arg_n = 0\<rparr>,
          \<lparr>kernel = \<lparr>mat = identity_matrix 4, global_up_array = [0, 0, 0, 0],
                      global_b_array = [0, 0, 0, 0], trace = []\<rparr>,
           dependency_table = (\<lambda>c. False),
           taskPQ = [spec_task 2 3 4 0 0],
           wait_queue = [],
           pcs = (\<lambda>w. AtReady)\<rparr>)"
proof -
  have h: "(0::int) < 2" "(0::int) < 3" "(0::int) < 4" "(0::int) \<le> 0" by simp_all
  show ?thesis
    using dagqrf_proceeds_without_validation [OF h, of "spec_task 2 3 4" "identity_matrix 4"]
    by (simp add: replicate_4)
qed

section \<open>Who writes and who reads the reflector slots\<close>














end
